theory Spec2Isabelle
  imports Complex_Main "HOL-Library.AList" "HOL-Library.Sublist"
begin

section \<open>The node mapping of the video tree builder\<close>

text \<open>
  The component \<^verbatim>\<open>VideoTreeBuilder\<close> exists in two versions. The earlier one
  (\<^verbatim>\<open>src/components/VideoTreeBuilder.tsx\<close>) places a new child by a fixed offset
  and draws a polyline or quadratic connector; the later one adds the field
  \<^verbatim>\<open>level\<close>, the recursive layout and the cubic connector.

  A JavaScript \<^verbatim>\<open>number\<close> is modelled as an exact rational: every cursor value
  of the layout is an integer multiple of 100, and the only inexact operations of the
  source (the division by the number of children, the factor 0.6) are taken as exact.
  The interface field \<^verbatim>\<open>id\<close> is \<open>node_id\<close>, \<^verbatim>\<open>x\<close> is \<open>node_x\<close> and
  \<^verbatim>\<open>y\<close> is \<open>node_y\<close>; the other fields keep their names. The later interface
  is the earlier one extended by \<open>level\<close>.
\<close>

record VideoNode0 =
  node_id :: string
  videoUrl :: "string option"
  node_x :: rat
  node_y :: rat
  color :: string
  parentId :: "string option"
  children :: "string list"

record VideoNode = VideoNode0 +
  level :: nat

text \<open>
  \<^verbatim>\<open>Record<string, VideoNode>\<close>: an object whose string keys keep their insertion
  order. \<open>map_of\<close> reads a key, \<open>AList.update\<close> writes one (in place when the key is
  there, at the end otherwise), as the object spread with a computed key does.
\<close>

type_synonym nodes = "(string \<times> VideoNode) list"

definition COLORS :: "string list" where
  "COLORS = [''#9b87f5'', ''#D946EF'', ''#F97316'', ''#0EA5E9'',
             ''#8B5CF6'', ''#EC4899'', ''#14B8A6'', ''#F59E0B'']"

definition LEVEL_HEIGHT :: rat where
  "LEVEL_HEIGHT = 220"

definition NODE_SPACING :: rat where
  "NODE_SPACING = 200"

text \<open>The initial state, which the reset button stores again.\<close>

definition rootNode :: VideoNode where
  "rootNode = \<lparr>node_id = ''root'', videoUrl = None, node_x = 600, node_y = 100,
     color = COLORS ! 0, parentId = None, children = [], level = 0\<rparr>"

definition reset :: nodes where
  "reset = [(''root'', rootNode)]"

text \<open>
  What a call can throw: \<open>TypeError\<close> for a property read on \<^verbatim>\<open>undefined\<close>,
  \<open>RangeError\<close> for a call stack that is used up.
\<close>

datatype error = TypeError | RangeError

section \<open>Layout\<close>

text \<open>
  \<^verbatim>\<open>calculateTreeLayout\<close> recurses through the \<^verbatim>\<open>children\<close> lists and writes
  \<^verbatim>\<open>x\<close>, \<^verbatim>\<open>y\<close> and \<^verbatim>\<open>level\<close> into the node objects of the map it is given.
  Each key of the map has a node object of its own, so a write into the object is an
  update of the map at that key. The first argument \<open>stack\<close> is the number of nested
  calls that the call stack still admits: the source recurses for ever on a cyclic map,
  until the engine's stack is used up, and that is the result \<open>None\<close>. The parameter
  \<^verbatim>\<open>level\<close> is \<open>lvl\<close>. \<open>forEach_children\<close> is the \<^verbatim>\<open>node.children.forEach\<close>
  loop with its two captured variables \<^verbatim>\<open>currentX\<close> and \<^verbatim>\<open>childPositions\<close>.
  The node object read before the loop is the one written after it; the loop writes
  \<^verbatim>\<open>x\<close>, \<^verbatim>\<open>y\<close> and \<^verbatim>\<open>level\<close> only, and the write after it sets all three.
\<close>

fun calculateTreeLayout :: "nat \<Rightarrow> string \<Rightarrow> nodes \<Rightarrow> rat \<Rightarrow> nat \<Rightarrow> (rat \<times> nodes) option"
  and forEach_children ::
    "nat \<Rightarrow> string list \<Rightarrow> nodes \<Rightarrow> rat \<Rightarrow> nat \<Rightarrow> rat list \<Rightarrow> (rat \<times> rat list \<times> nodes) option"
where
  "calculateTreeLayout 0 nodeId nodesMap startX lvl = None"
| "calculateTreeLayout (Suc stack) nodeId nodesMap startX lvl =
     (case map_of nodesMap nodeId of
        None \<Rightarrow> Some (startX, nodesMap)
      | Some node \<Rightarrow>
          if length (children node) = 0 then
            Some (startX + NODE_SPACING,
                  AList.update nodeId
                    (node\<lparr>node_x := startX, node_y := 100 + of_nat lvl * LEVEL_HEIGHT,
                          level := lvl\<rparr>) nodesMap)
          else
            (case forEach_children stack (children node) nodesMap startX lvl [] of
               None \<Rightarrow> None
             | Some (currentX, childPositions, nodesMap') \<Rightarrow>
                 Some (currentX,
                       AList.update nodeId
                         (node\<lparr>node_x :=
                                 (if length childPositions > 0
                                  then foldl (+) 0 childPositions / of_nat (length childPositions)
                                  else startX),
                               node_y := 100 + of_nat lvl * LEVEL_HEIGHT,
                               level := lvl\<rparr>) nodesMap')))"
| "forEach_children stack [] nodesMap currentX lvl childPositions =
     Some (currentX, childPositions, nodesMap)"
| "forEach_children stack (childId # rest) nodesMap currentX lvl childPositions =
     (case calculateTreeLayout stack childId nodesMap currentX (lvl + 1) of
        None \<Rightarrow> None
      | Some (childEndX, nodesMap') \<Rightarrow>
          forEach_children stack rest nodesMap' childEndX lvl
            (childPositions @ [(currentX + childEndX - NODE_SPACING) / 2]))"

definition recalculateLayout :: "nat \<Rightarrow> nodes \<Rightarrow> nodes option" where
  "recalculateLayout stack nodesMap =
     map_option snd (calculateTreeLayout stack ''root'' nodesMap 100 0)"

section \<open>Creating nodes\<close>

text \<open>
  The decimal text of a number, as the template literal \<^verbatim>\<open>`node-${Date.now()}`\<close>
  prints it.
\<close>

definition digit_char :: "nat \<Rightarrow> char" where
  "digit_char d = ''0123456789'' ! d"

function decimal :: "nat \<Rightarrow> string" where
  "decimal n = (if 10 \<le> n then decimal (n div 10) @ [digit_char (n mod 10)] else [digit_char n])"
  by pat_completeness auto
termination
  by (relation "measure (\<lambda>n. n)") auto

declare decimal.simps [simp del]

definition number_text :: "int \<Rightarrow> string" where
  "number_text i = (if 0 \<le> i then decimal (nat i) else CHR ''-'' # decimal (nat (- i)))"

text \<open>\<^verbatim>\<open>const newId = `node-${Date.now()}`\<close>, the clock reading \<open>now\<close> being an input.\<close>

definition newId :: "int \<Rightarrow> string" where
  "newId now = ''node-'' @ number_text now"

text \<open>
  \<^verbatim>\<open>addChildNode\<close> of the later version. The read \<^verbatim>\<open>parent.x\<close> throws when
  \<^verbatim>\<open>nodes[parentId]\<close> is \<^verbatim>\<open>undefined\<close>, before \<^verbatim>\<open>setNodes\<close> is reached. The parameter \<^verbatim>\<open>parentId\<close> is \<open>parent_id\<close>.
  \<^verbatim>\<open>Object.keys(nodes).length\<close> is the length of the list, whose keys are distinct.
\<close>

definition addChildNode :: "nat \<Rightarrow> int \<Rightarrow> string \<Rightarrow> nodes \<Rightarrow> error + nodes" where
  "addChildNode stack now parent_id nodes =
     (case map_of nodes parent_id of
        None \<Rightarrow> Inl TypeError
      | Some parent \<Rightarrow>
          (let colorIndex = length nodes mod length COLORS;
               newColor = COLORS ! colorIndex;
               newNode = \<lparr>node_id = newId now, videoUrl = None, node_x = node_x parent,
                          node_y = node_y parent + LEVEL_HEIGHT, color = newColor,
                          parentId = Some parent_id, children = [],
                          level = level parent + 1\<rparr>;
               updatedNodes =
                 AList.update (newId now) newNode
                   (AList.update parent_id
                      (parent\<lparr>children := children parent @ [newId now]\<rparr>) nodes)
           in case recalculateLayout stack updatedNodes of
                None \<Rightarrow> Inl RangeError
              | Some laidOut \<Rightarrow> Inr laidOut))"

text \<open>
  \<^verbatim>\<open>addChildNode\<close> of the earlier version, on nodes without \<^verbatim>\<open>level\<close>: the child is
  placed at a fixed offset from its parent and nothing is laid out again.
\<close>

type_synonym nodes0 = "(string \<times> VideoNode0) list"

definition reset0 :: nodes0 where
  "reset0 = [(''root'', \<lparr>node_id = ''root'', videoUrl = None, node_x = 400, node_y = 50,
                color = COLORS ! 0, parentId = None, children = []\<rparr>)]"

definition addChildNode0 :: "int \<Rightarrow> string \<Rightarrow> nodes0 \<Rightarrow> error + nodes0" where
  "addChildNode0 now parent_id nodes =
     (case map_of nodes parent_id of
        None \<Rightarrow> Inl TypeError
      | Some parent \<Rightarrow>
          (let childCount = length (children parent);
               offsetX = (if childCount = 0 then 0
                          else if childCount mod 2 = 0 then - 150 else (150 :: rat));
               offsetY = 180;
               colorIndex = length nodes mod length COLORS;
               newColor = COLORS ! colorIndex;
               newNode = \<lparr>node_id = newId now, videoUrl = None,
                          node_x = node_x parent + offsetX * (of_nat (childCount div 2) + 1),
                          node_y = node_y parent + offsetY, color = newColor,
                          parentId = Some parent_id, children = []\<rparr>
           in Inr (AList.update (newId now) newNode
                     (AList.update parent_id
                        (parent\<lparr>children := children parent @ [newId now]\<rparr>) nodes))))"

section \<open>Attaching a video\<close>

text \<open>
  Of the selected \<^verbatim>\<open>File\<close> only its \<^verbatim>\<open>type\<close> is read. The change event carries
  \<^verbatim>\<open>event.target.files\<close>, which may be \<^verbatim>\<open>null\<close> or empty. \<open>objectUrl\<close> is what
  \<^verbatim>\<open>URL.createObjectURL(file)\<close> returns.
\<close>

record video_file =
  file_type :: string

type_synonym change_event = "video_file list option"

definition first_file :: "change_event \<Rightarrow> video_file option" where
  "first_file event =
     (case event of None \<Rightarrow> None | Some [] \<Rightarrow> None | Some (f # _) \<Rightarrow> Some f)"

text \<open>
  The state after the handler. When \<^verbatim>\<open>prev[nodeId]\<close> is \<^verbatim>\<open>undefined\<close> the source
  stores under \<open>nodeId\<close> an object holding \<^verbatim>\<open>videoUrl\<close> alone, which is no
  \<open>VideoNode\<close>: that outcome is \<open>Untyped\<close>.
\<close>

datatype select_result = Nodes nodes | Untyped string string

definition handleFileSelect :: "string \<Rightarrow> change_event \<Rightarrow> string \<Rightarrow> nodes \<Rightarrow> select_result" where
  "handleFileSelect nodeId event objectUrl prev =
     (case first_file event of
        None \<Rightarrow> Nodes prev
      | Some f \<Rightarrow>
          if prefix ''video/'' (file_type f) then
            (case map_of prev nodeId of
               None \<Rightarrow> Untyped nodeId objectUrl
             | Some node \<Rightarrow> Nodes (AList.update nodeId (node\<lparr>videoUrl := Some objectUrl\<rparr>) prev))
          else Nodes prev)"

section \<open>Events\<close>

text \<open>
  The handlers wired to the interface, run one after the other: the plus button of a
  node calls \<open>addChildNode\<close>, the file input calls \<open>handleFileSelect\<close>, the reset button
  stores the initial state. An addition that throws the \<open>TypeError\<close> has written
  nothing, so the state stays. \<open>None\<close> is a state that the model does not follow: one
  that holds an object which is no \<open>VideoNode\<close>, or one whose node objects, shared with
  the copy that was being laid out, received positions from a pass that ran out of
  stack.
\<close>

datatype event =
    AddChild int string
  | SelectFile string change_event string
  | Reset

fun dispatch :: "nat \<Rightarrow> event \<Rightarrow> nodes \<Rightarrow> nodes option" where
  "dispatch stack (AddChild now parent_id) nodes =
     (case addChildNode stack now parent_id nodes of
        Inl TypeError \<Rightarrow> Some nodes
      | Inl RangeError \<Rightarrow> None
      | Inr updated \<Rightarrow> Some updated)"
| "dispatch stack (SelectFile nodeId ev objectUrl) nodes =
     (case handleFileSelect nodeId ev objectUrl nodes of
        Nodes updated \<Rightarrow> Some updated
      | Untyped _ _ \<Rightarrow> None)"
| "dispatch stack Reset nodes = Some reset"

fun run :: "nat \<Rightarrow> event list \<Rightarrow> nodes \<Rightarrow> nodes option" where
  "run stack [] nodes = Some nodes"
| "run stack (e # es) nodes =
     (case dispatch stack e nodes of
        None \<Rightarrow> None
      | Some updated \<Rightarrow> run stack es updated)"

section \<open>Connectors\<close>

text \<open>
  A path description is the sequence of SVG path commands that the template literal
  prints, each with its numeric arguments.
\<close>

datatype svg_cmd =
    MoveTo rat rat
  | LineTo rat rat
  | CurveTo rat rat rat rat rat rat
  | QuadTo rat rat rat rat

type_synonym path = "svg_cmd list"

definition calculateBranchPath :: "VideoNode \<Rightarrow> VideoNode \<Rightarrow> path" where
  "calculateBranchPath parent child =
     (let startX = node_x parent;
          startY = node_y parent + 80;
          endX = node_x child;
          endY = node_y child - 80;
          midY = (startY + endY) / 2
      in if \<bar>endX - startX\<bar> < 10 then [MoveTo startX startY, LineTo endX endY]
         else (let controlY1 = startY + (midY - startY) * (6 / 10);
                   controlY2 = endY - (endY - midY) * (6 / 10)
               in [MoveTo startX startY,
                   CurveTo startX controlY1 endX controlY2 endX endY]))"

text \<open>\<^verbatim>\<open>calculatePath\<close> of the earlier version.\<close>

definition calculatePath :: "VideoNode0 \<Rightarrow> VideoNode0 \<Rightarrow> nat \<Rightarrow> nat \<Rightarrow> path" where
  "calculatePath parent child siblingIndex totalSiblings =
     (let startX = node_x parent;
          startY = node_y parent + 70;
          endX = node_x child;
          endY = node_y child - 70
      in if totalSiblings = 1 then
           (let midY = (startY + endY) / 2
            in [MoveTo startX startY, LineTo startX midY, LineTo endX midY, LineTo endX endY])
         else
           (let curve = (if siblingIndex mod 2 = 0 then - 50 else (50 :: rat));
                midY = (startY + endY) / 2;
                controlX = (startX + endX) / 2 + curve
            in [MoveTo startX startY, LineTo startX (midY - 30),
                QuadTo controlX midY endX (midY + 30), LineTo endX endY]))"

text \<open>The points at which a path begins and ends, and the geometry of its curve.\<close>

fun cmd_end :: "svg_cmd \<Rightarrow> rat \<times> rat" where
  "cmd_end (MoveTo a b) = (a, b)"
| "cmd_end (LineTo a b) = (a, b)"
| "cmd_end (CurveTo _ _ _ _ a b) = (a, b)"
| "cmd_end (QuadTo _ _ a b) = (a, b)"

definition path_start :: "path \<Rightarrow> (rat \<times> rat) option" where
  "path_start p = (case p of MoveTo a b # _ \<Rightarrow> Some (a, b) | _ \<Rightarrow> None)"

definition path_end :: "path \<Rightarrow> (rat \<times> rat) option" where
  "path_end p = (if p = [] then None else Some (cmd_end (last p)))"

text \<open>
  A cubic Bezier curve from \<open>p0\<close> with control points \<open>p1\<close>, \<open>p2\<close> to \<open>p3\<close> leaves
  \<open>p0\<close> along \<open>p1 - p0\<close> and reaches \<open>p3\<close> along \<open>p3 - p2\<close>.
\<close>

definition departure :: "rat \<times> rat \<Rightarrow> svg_cmd \<Rightarrow> rat \<times> rat" where
  "departure p0 c =
     (case c of CurveTo a1 b1 a2 b2 a3 b3 \<Rightarrow> (a1 - fst p0, b1 - snd p0) | _ \<Rightarrow> (0, 0))"

definition arrival :: "svg_cmd \<Rightarrow> rat \<times> rat" where
  "arrival c = (case c of CurveTo a1 b1 a2 b2 a3 b3 \<Rightarrow> (a3 - a2, b3 - b2) | _ \<Rightarrow> (0, 0))"

section \<open>Trees and the layout the specification describes\<close>

text \<open>
  The shape of a tree: the id of a node and the subtrees of its children, in the order of
  \<^verbatim>\<open>children\<close>. A node mapping \<open>embeds\<close> a tree when every node of the tree is a
  key of the mapping whose \<^verbatim>\<open>children\<close> are the roots of its subtrees. A tree has
  each id once (\<open>distinct (tree_ids t)\<close>).
\<close>

datatype tree = Tree string "tree list"

fun root_id :: "tree \<Rightarrow> string" where
  "root_id (Tree k ts) = k"

fun tree_ids :: "tree \<Rightarrow> string list" where
  "tree_ids (Tree k ts) = k # concat (map tree_ids ts)"

fun subterms :: "tree \<Rightarrow> tree list" where
  "subterms (Tree k ts) = Tree k ts # concat (map subterms ts)"

fun height :: "tree \<Rightarrow> nat" where
  "height (Tree k ts) = Suc (foldr max (map height ts) 0)"

fun embeds :: "nodes \<Rightarrow> tree \<Rightarrow> bool" where
  "embeds m (Tree k ts) =
     (case map_of m k of
        None \<Rightarrow> False
      | Some n \<Rightarrow> children n = map root_id ts \<and> list_all (embeds m) ts)"

text \<open>
  The cursor of the layout pass: a leaf advances it by the sibling spacing, an internal
  node hands it through its children from left to right.
\<close>

fun cursor_after :: "tree \<Rightarrow> rat \<Rightarrow> rat"
  and cursor_after_all :: "tree list \<Rightarrow> rat \<Rightarrow> rat"
where
  "cursor_after (Tree k ts) cursor =
     (if ts = [] then cursor + NODE_SPACING else cursor_after_all ts cursor)"
| "cursor_after_all [] cursor = cursor"
| "cursor_after_all (t # ts) cursor = cursor_after_all ts (cursor_after t cursor)"

text \<open>
  The midpoint of a child, from the cursor before and the cursor after its subtree:
  \<open>spec_mid\<close> as the specification words it, \<open>code_mid\<close> as the source computes it.
\<close>

definition spec_mid :: "rat \<Rightarrow> rat \<Rightarrow> rat" where
  "spec_mid before after = (before + after) / 2"

definition code_mid :: "rat \<Rightarrow> rat \<Rightarrow> rat" where
  "code_mid before after = (before + after - NODE_SPACING) / 2"

fun midpoints :: "(rat \<Rightarrow> rat \<Rightarrow> rat) \<Rightarrow> tree list \<Rightarrow> rat \<Rightarrow> rat list" where
  "midpoints mid [] cursor = []"
| "midpoints mid (t # ts) cursor =
     mid cursor (cursor_after t cursor) # midpoints mid ts (cursor_after t cursor)"

text \<open>
  \<open>placed mid m t cursor d\<close>: in the mapping \<open>m\<close> every node of the tree \<open>t\<close> has the
  position and depth that the layout algorithm of the specification gives it, when the
  pass enters \<open>t\<close> with the given cursor at depth \<open>d\<close> and child midpoints are taken by
  \<open>mid\<close>: a leaf has the incoming cursor as \<open>x\<close>, an internal node the arithmetic mean of
  its children's midpoints, and every node has \<open>y = 100 + d * LEVEL_HEIGHT\<close> and
  \<open>level = d\<close>.
\<close>

fun placed :: "(rat \<Rightarrow> rat \<Rightarrow> rat) \<Rightarrow> nodes \<Rightarrow> tree \<Rightarrow> rat \<Rightarrow> nat \<Rightarrow> bool"
  and placed_all :: "(rat \<Rightarrow> rat \<Rightarrow> rat) \<Rightarrow> nodes \<Rightarrow> tree list \<Rightarrow> rat \<Rightarrow> nat \<Rightarrow> bool"
where
  "placed mid m (Tree k ts) cursor d =
     (case map_of m k of
        None \<Rightarrow> False
      | Some n \<Rightarrow>
          node_x n = (if ts = [] then cursor
                      else sum_list (midpoints mid ts cursor) / of_nat (length ts)) \<and>
          node_y n = 100 + of_nat d * LEVEL_HEIGHT \<and>
          level n = d \<and>
          placed_all mid m ts cursor (Suc d))"
| "placed_all mid m [] cursor d = True"
| "placed_all mid m (t # ts) cursor d =
     (placed mid m t cursor d \<and> placed_all mid m ts (cursor_after t cursor) d)"

text \<open>
  Two mappings have the same shape when they have the same keys in the same order and
  their nodes differ in \<open>node_x\<close>, \<open>node_y\<close> and \<open>level\<close> at most.
\<close>

definition shape :: "VideoNode \<Rightarrow> VideoNode" where
  "shape n = n\<lparr>node_x := 0, node_y := 0, level := 0\<rparr>"

definition same_shape :: "nodes \<Rightarrow> nodes \<Rightarrow> bool" where
  "same_shape m m' \<longleftrightarrow>
     map fst m' = map fst m \<and> (\<forall>k. map_option shape (map_of m' k) = map_option shape (map_of m k))"

section \<open>Sequences of additions\<close>

text \<open>
  \<open>add_leaf p k t\<close> is the tree \<open>t\<close> with a new leaf \<open>k\<close> as last child of the node
  \<open>p\<close>. \<open>linked m t par d\<close>: in the mapping \<open>m\<close> the root of \<open>t\<close> has the parent \<open>par\<close>
  and the level \<open>d\<close>, and every other node of \<open>t\<close> has its tree parent as
  \<^verbatim>\<open>parentId\<close> and is one level below it. \<open>tree_state m t\<close>: the mapping is the tree
  \<open>t\<close> rooted at \<^verbatim>\<open>root\<close>, with every key a node of the tree and the parent links
  and levels of the tree. \<open>fresh_additions keys es\<close>: the events \<open>es\<close> are additions,
  each addressed to a key that exists when it runs and each at a clock reading whose id
  is not yet a key.
\<close>

fun add_leaf :: "string \<Rightarrow> string \<Rightarrow> tree \<Rightarrow> tree" where
  "add_leaf p k (Tree r ts) =
     (if r = p then Tree r (ts @ [Tree k []]) else Tree r (map (add_leaf p k) ts))"

fun linked :: "nodes \<Rightarrow> tree \<Rightarrow> string option \<Rightarrow> nat \<Rightarrow> bool" where
  "linked m (Tree k ts) par d =
     (case map_of m k of
        None \<Rightarrow> False
      | Some n \<Rightarrow> parentId n = par \<and> level n = d \<and>
                  list_all (\<lambda>t. linked m t (Some k) (Suc d)) ts)"

definition tree_state :: "nodes \<Rightarrow> tree \<Rightarrow> bool" where
  "tree_state m t \<longleftrightarrow>
     root_id t = ''root'' \<and> embeds m t \<and> distinct (tree_ids t) \<and>
     set (tree_ids t) = set (map fst m) \<and> distinct (map fst m) \<and> linked m t None 0"

fun fresh_additions :: "string list \<Rightarrow> event list \<Rightarrow> bool" where
  "fresh_additions keys [] = True"
| "fresh_additions keys (AddChild now parent_id # es) =
     (parent_id \<in> set keys \<and> newId now \<notin> set keys \<and> fresh_additions (keys @ [newId now]) es)"
| "fresh_additions keys (_ # es) = False"

section \<open>Example states\<close>

text \<open>
  \<open>one_child\<close> is the state after the reset state received one child of the root at
  clock reading 1000. \<open>four_nodes\<close> has a root with two children, the first of which
  has a child of its own, and positions that no layout pass has assigned yet.
\<close>

definition one_child :: nodes where
  "one_child =
     [(''root'', \<lparr>node_id = ''root'', videoUrl = None, node_x = 100, node_y = 100,
         color = ''#9b87f5'', parentId = None, children = [''node-1000''], level = 0\<rparr>),
      (''node-1000'', \<lparr>node_id = ''node-1000'', videoUrl = None, node_x = 100, node_y = 320,
         color = ''#D946EF'', parentId = Some ''root'', children = [], level = 1\<rparr>)]"

definition one_child_tree :: tree where
  "one_child_tree = Tree ''root'' [Tree ''node-1000'' []]"

definition four_nodes :: nodes where
  "four_nodes =
     [(''root'', \<lparr>node_id = ''root'', videoUrl = Some ''blob:1'', node_x = 600, node_y = 100,
         color = ''#9b87f5'', parentId = None, children = [''node-1'', ''node-2''], level = 0\<rparr>),
      (''node-1'', \<lparr>node_id = ''node-1'', videoUrl = Some ''blob:2'', node_x = 600, node_y = 320,
         color = ''#D946EF'', parentId = Some ''root'', children = [''node-3''], level = 1\<rparr>),
      (''node-2'', \<lparr>node_id = ''node-2'', videoUrl = None, node_x = 600, node_y = 320,
         color = ''#F97316'', parentId = Some ''root'', children = [], level = 1\<rparr>),
      (''node-3'', \<lparr>node_id = ''node-3'', videoUrl = None, node_x = 600, node_y = 540,
         color = ''#0EA5E9'', parentId = Some ''node-1'', children = [], level = 2\<rparr>)]"

definition four_nodes_tree :: tree where
  "four_nodes_tree = Tree ''root'' [Tree ''node-1'' [Tree ''node-3'' []], Tree ''node-2'' []]"

text \<open>
  States in which a clock reading repeats. \<open>same_ms\<close> follows \<open>one_child\<close> when the root
  receives a second child at the clock reading 1000 of the first. \<open>first_child_5\<close> is
  the reset state after one child at clock reading 5, and \<open>self_parent\<close> follows it when
  that child receives a child at the same reading. \<open>three_level\<close> is reached from the
  reset state by attaching videos and adding children at the readings 1000, 2000 and
  3000; \<open>overwritten\<close> follows it when \<^verbatim>\<open>node-3000\<close> receives a child at the reading
  1000 again.
\<close>

definition same_ms :: nodes where
  "same_ms =
     [(''root'', \<lparr>node_id = ''root'', videoUrl = None, node_x = 200, node_y = 100,
         color = ''#9b87f5'', parentId = None, children = [''node-1000'', ''node-1000''],
         level = 0\<rparr>),
      (''node-1000'', \<lparr>node_id = ''node-1000'', videoUrl = None, node_x = 300, node_y = 320,
         color = ''#F97316'', parentId = Some ''root'', children = [], level = 1\<rparr>)]"

definition first_child_5 :: nodes where
  "first_child_5 =
     [(''root'', \<lparr>node_id = ''root'', videoUrl = None, node_x = 100, node_y = 100,
         color = ''#9b87f5'', parentId = None, children = [''node-5''], level = 0\<rparr>),
      (''node-5'', \<lparr>node_id = ''node-5'', videoUrl = None, node_x = 100, node_y = 320,
         color = ''#D946EF'', parentId = Some ''root'', children = [], level = 1\<rparr>)]"

definition self_parent :: nodes where
  "self_parent =
     [(''root'', \<lparr>node_id = ''root'', videoUrl = None, node_x = 100, node_y = 100,
         color = ''#9b87f5'', parentId = None, children = [''node-5''], level = 0\<rparr>),
      (''node-5'', \<lparr>node_id = ''node-5'', videoUrl = None, node_x = 100, node_y = 320,
         color = ''#F97316'', parentId = Some ''node-5'', children = [], level = 1\<rparr>)]"

definition three_level :: nodes where
  "three_level =
     [(''root'', \<lparr>node_id = ''root'', videoUrl = Some ''blob:1'', node_x = 200, node_y = 100,
         color = ''#9b87f5'', parentId = None, children = [''node-1000'', ''node-3000''],
         level = 0\<rparr>),
      (''node-1000'', \<lparr>node_id = ''node-1000'', videoUrl = Some ''blob:2'', node_x = 100,
         node_y = 320, color = ''#D946EF'', parentId = Some ''root'',
         children = [''node-2000''], level = 1\<rparr>),
      (''node-2000'', \<lparr>node_id = ''node-2000'', videoUrl = None, node_x = 100, node_y = 540,
         color = ''#F97316'', parentId = Some ''node-1000'', children = [], level = 2\<rparr>),
      (''node-3000'', \<lparr>node_id = ''node-3000'', videoUrl = Some ''blob:3'', node_x = 300,
         node_y = 320, color = ''#0EA5E9'', parentId = Some ''root'', children = [],
         level = 1\<rparr>)]"

definition overwritten :: nodes where
  "overwritten =
     [(''root'', \<lparr>node_id = ''root'', videoUrl = Some ''blob:1'', node_x = 200, node_y = 100,
         color = ''#9b87f5'', parentId = None, children = [''node-1000'', ''node-3000''],
         level = 0\<rparr>),
      (''node-1000'', \<lparr>node_id = ''node-1000'', videoUrl = None, node_x = 300, node_y = 540,
         color = ''#8B5CF6'', parentId = Some ''node-3000'', children = [], level = 2\<rparr>),
      (''node-2000'', \<lparr>node_id = ''node-2000'', videoUrl = None, node_x = 100, node_y = 540,
         color = ''#F97316'', parentId = Some ''node-1000'', children = [], level = 2\<rparr>),
      (''node-3000'', \<lparr>node_id = ''node-3000'', videoUrl = Some ''blob:3'', node_x = 300,
         node_y = 320, color = ''#0EA5E9'', parentId = Some ''root'',
         children = [''node-1000''], level = 1\<rparr>)]"

text \<open>
  A clock reading that repeats under two parents. \<open>first_branch\<close> follows the reset
  state when the root receives a child at the reading 1, and \<open>two_branches\<close> when it
  receives a second child at the reading 2; \<open>first_leaf\<close> follows when \<^verbatim>\<open>node-2\<close>
  receives a child at the reading 7; \<open>shared_child\<close> follows when \<^verbatim>\<open>node-1\<close>
  receives a child at the same reading 7; \<open>shared_leaf\<close> follows when \<^verbatim>\<open>node-1\<close>
  receives a second child at the reading 8.
\<close>

definition first_branch :: nodes where
  "first_branch =
     [(''root'', \<lparr>node_id = ''root'', videoUrl = None, node_x = 100, node_y = 100,
         color = ''#9b87f5'', parentId = None, children = [''node-1''], level = 0\<rparr>),
      (''node-1'', \<lparr>node_id = ''node-1'', videoUrl = None, node_x = 100, node_y = 320,
         color = ''#D946EF'', parentId = Some ''root'', children = [], level = 1\<rparr>)]"

definition two_branches :: nodes where
  "two_branches =
     [(''root'', \<lparr>node_id = ''root'', videoUrl = None, node_x = 200, node_y = 100,
         color = ''#9b87f5'', parentId = None, children = [''node-1'', ''node-2''],
         level = 0\<rparr>),
      (''node-1'', \<lparr>node_id = ''node-1'', videoUrl = None, node_x = 100, node_y = 320,
         color = ''#D946EF'', parentId = Some ''root'', children = [], level = 1\<rparr>),
      (''node-2'', \<lparr>node_id = ''node-2'', videoUrl = None, node_x = 300, node_y = 320,
         color = ''#F97316'', parentId = Some ''root'', children = [], level = 1\<rparr>)]"

definition first_leaf :: nodes where
  "first_leaf =
     [(''root'', \<lparr>node_id = ''root'', videoUrl = None, node_x = 200, node_y = 100,
         color = ''#9b87f5'', parentId = None, children = [''node-1'', ''node-2''],
         level = 0\<rparr>),
      (''node-1'', \<lparr>node_id = ''node-1'', videoUrl = None, node_x = 100, node_y = 320,
         color = ''#D946EF'', parentId = Some ''root'', children = [], level = 1\<rparr>),
      (''node-2'', \<lparr>node_id = ''node-2'', videoUrl = None, node_x = 300, node_y = 320,
         color = ''#F97316'', parentId = Some ''root'', children = [''node-7''],
         level = 1\<rparr>),
      (''node-7'', \<lparr>node_id = ''node-7'', videoUrl = None, node_x = 300, node_y = 540,
         color = ''#0EA5E9'', parentId = Some ''node-2'', children = [], level = 2\<rparr>)]"

definition shared_child :: nodes where
  "shared_child =
     [(''root'', \<lparr>node_id = ''root'', videoUrl = None, node_x = 200, node_y = 100,
         color = ''#9b87f5'', parentId = None, children = [''node-1'', ''node-2''],
         level = 0\<rparr>),
      (''node-1'', \<lparr>node_id = ''node-1'', videoUrl = None, node_x = 100, node_y = 320,
         color = ''#D946EF'', parentId = Some ''root'', children = [''node-7''],
         level = 1\<rparr>),
      (''node-2'', \<lparr>node_id = ''node-2'', videoUrl = None, node_x = 300, node_y = 320,
         color = ''#F97316'', parentId = Some ''root'', children = [''node-7''],
         level = 1\<rparr>),
      (''node-7'', \<lparr>node_id = ''node-7'', videoUrl = None, node_x = 300, node_y = 540,
         color = ''#8B5CF6'', parentId = Some ''node-1'', children = [], level = 2\<rparr>)]"

definition shared_leaf :: nodes where
  "shared_leaf =
     [(''root'', \<lparr>node_id = ''root'', videoUrl = None, node_x = 350, node_y = 100,
         color = ''#9b87f5'', parentId = None, children = [''node-1'', ''node-2''],
         level = 0\<rparr>),
      (''node-1'', \<lparr>node_id = ''node-1'', videoUrl = None, node_x = 200, node_y = 320,
         color = ''#D946EF'', parentId = Some ''root'',
         children = [''node-7'', ''node-8''], level = 1\<rparr>),
      (''node-2'', \<lparr>node_id = ''node-2'', videoUrl = None, node_x = 500, node_y = 320,
         color = ''#F97316'', parentId = Some ''root'', children = [''node-7''],
         level = 1\<rparr>),
      (''node-7'', \<lparr>node_id = ''node-7'', videoUrl = None, node_x = 500, node_y = 540,
         color = ''#8B5CF6'', parentId = Some ''node-1'', children = [], level = 2\<rparr>),
      (''node-8'', \<lparr>node_id = ''node-8'', videoUrl = None, node_x = 300, node_y = 540,
         color = ''#8B5CF6'', parentId = Some ''node-1'', children = [], level = 2\<rparr>)]"

text \<open>
  The parent links of a tree: one node without a parent, and every other node one level
  below a parent that exists.
\<close>

definition parent_links_ok :: "nodes \<Rightarrow> bool" where
  "parent_links_ok m \<longleftrightarrow>
     length (filter (\<lambda>(k, n). parentId n = None) m) = 1 \<and>
     list_all (\<lambda>(k, n). case parentId n of
                          None \<Rightarrow> True
                        | Some p \<Rightarrow> (case map_of m p of
                                       None \<Rightarrow> False
                                     | Some pn \<Rightarrow> level n = level pn + 1)) m"

section \<open>Properties\<close>

subsection \<open>Auxiliary facts\<close>

lemma key_present: "map_of m k = Some v \<Longrightarrow> k \<in> fst ` set m"
  by (metis domI dom_map_of_conv_image_fst)

lemma same_shape_refl: "same_shape m m"
  by (simp add: same_shape_def)

lemma same_shape_trans: "same_shape a b \<Longrightarrow> same_shape b c \<Longrightarrow> same_shape a c"
  by (simp add: same_shape_def)

lemma same_shape_update:
  assumes "map_of m k = Some n" and "shape n' = shape n"
  shows "same_shape m (AList.update k n' m)"
  using assms
  by (auto simp add: same_shape_def AList.update_keys AList.update_conv' key_present)

lemma same_shape_lookup:
  assumes "same_shape m m'" and "map_of m k = Some n"
  shows "\<exists>n'. map_of m' k = Some n' \<and> shape n' = shape n"
proof -
  from assms have "map_option shape (map_of m' k) = Some (shape n)"
    by (simp add: same_shape_def)
  then show ?thesis by (cases "map_of m' k") auto
qed

lemma shape_children: "shape a = shape b \<Longrightarrow> children a = children b"
proof -
  assume "shape a = shape b"
  then have "children (shape a) = children (shape b)" by simp
  then show ?thesis by (simp add: shape_def)
qed

lemma shape_positioned [simp]:
  "shape (n\<lparr>node_x := a, node_y := b, level := c\<rparr>) = shape n"
  by (simp add: shape_def)

lemma embeds_same_shape:
  "same_shape m m' \<Longrightarrow> embeds m t \<Longrightarrow> embeds m' t"
proof (induction t)
  case (Tree k ts)
  from Tree.prems(2) obtain n where n: "map_of m k = Some n" "children n = map root_id ts"
    "list_all (embeds m) ts"
    by (auto split: option.splits)
  from same_shape_lookup [OF Tree.prems(1) n(1)] obtain n' where
    n': "map_of m' k = Some n'" "shape n' = shape n" by blast
  have "list_all (embeds m') ts"
    using Tree.IH Tree.prems(1) n(3) by (simp add: list_all_iff)
  with n n' show ?case by (simp add: shape_children [OF n'(2)])
qed

lemma placed_cong:
  "(\<forall>k \<in> set (tree_ids t). map_of m1 k = map_of m2 k) \<Longrightarrow>
     placed mid m1 t c d = placed mid m2 t c d"
  and placed_all_cong:
  "(\<forall>k \<in> set (concat (map tree_ids ts)). map_of m1 k = map_of m2 k) \<Longrightarrow>
     placed_all mid m1 ts c d = placed_all mid m2 ts c d"
  by (induction mid m1 t c d and mid m1 ts c d rule: placed_placed_all.induct)
    (auto split: option.splits)

lemma foldl_plus_sum_list: "foldl (+) a xs = a + sum_list (xs :: rat list)"
  by (induction xs arbitrary: a) (simp_all add: add.assoc)

lemma length_midpoints [simp]: "length (midpoints mid ts c) = length ts"
  by (induction ts arbitrary: c) simp_all

lemma midpoints_Nil_iff [simp]: "midpoints mid ts c = [] \<longleftrightarrow> ts = []"
  by (cases ts) simp_all

lemma foldr_max_le: "foldr max (map f xs) (0::nat) \<le> d \<longleftrightarrow> (\<forall>x \<in> set xs. f x \<le> d)"
  by (induction xs) auto


text \<open>
  The layout of a tree. Called on the root of a tree that the mapping embeds, with a
  stack of at least the height of the tree, \<open>calculateTreeLayout\<close> returns the
  cursor that the tree prescribes, changes positions only, changes no node outside the
  tree, and leaves every node of the tree at the place \<open>placed code_mid\<close> describes.
\<close>

lemma forEach_children_tree:
  assumes IH: "\<And>t m c. t \<in> set ts \<Longrightarrow> embeds m t \<Longrightarrow> distinct (tree_ids t) \<Longrightarrow>
      \<exists>m'. calculateTreeLayout stack (root_id t) m c (d + 1) = Some (cursor_after t c, m') \<and>
           same_shape m m' \<and> (\<forall>k. k \<notin> set (tree_ids t) \<longrightarrow> map_of m' k = map_of m k) \<and>
           placed code_mid m' t c (Suc d)"
    and "list_all (embeds m) ts" and "distinct (concat (map tree_ids ts))"
  shows "\<exists>m'. forEach_children stack (map root_id ts) m c d acc
             = Some (cursor_after_all ts c, acc @ midpoints code_mid ts c, m') \<and>
           same_shape m m' \<and>
           (\<forall>k. k \<notin> set (concat (map tree_ids ts)) \<longrightarrow> map_of m' k = map_of m k) \<and>
           placed_all code_mid m' ts c (Suc d)"
  using assms
proof (induction ts arbitrary: m c acc)
  case Nil
  then show ?case by (simp add: same_shape_refl)
next
  case (Cons t ts)
  from Cons.prems(2) have et: "embeds m t" and ets: "list_all (embeds m) ts" by simp_all
  from Cons.prems(3) have dt: "distinct (tree_ids t)"
    and dts: "distinct (concat (map tree_ids ts))"
    and disj: "set (tree_ids t) \<inter> set (concat (map tree_ids ts)) = {}"
    by simp_all
  from Cons.prems(1) [OF _ et dt, of c] obtain m1 where
    m1: "calculateTreeLayout stack (root_id t) m c (d + 1) = Some (cursor_after t c, m1)"
      "same_shape m m1" "\<forall>k. k \<notin> set (tree_ids t) \<longrightarrow> map_of m1 k = map_of m k"
      "placed code_mid m1 t c (Suc d)"
    by auto
  have ets1: "list_all (embeds m1) ts"
    using ets embeds_same_shape [OF m1(2)] by (simp add: list_all_iff)
  have "\<exists>m'. forEach_children stack (map root_id ts) m1 (cursor_after t c) d
                (acc @ [(c + cursor_after t c - NODE_SPACING) / 2])
             = Some (cursor_after_all ts (cursor_after t c),
                     (acc @ [(c + cursor_after t c - NODE_SPACING) / 2])
                       @ midpoints code_mid ts (cursor_after t c), m') \<and>
           same_shape m1 m' \<and>
           (\<forall>k. k \<notin> set (concat (map tree_ids ts)) \<longrightarrow> map_of m' k = map_of m1 k) \<and>
           placed_all code_mid m' ts (cursor_after t c) (Suc d)"
    by (rule Cons.IH [OF _ ets1 dts]) (rule Cons.prems(1), simp_all)
  then obtain m' where
    m': "forEach_children stack (map root_id ts) m1 (cursor_after t c) d
                (acc @ [(c + cursor_after t c - NODE_SPACING) / 2])
             = Some (cursor_after_all ts (cursor_after t c),
                     (acc @ [(c + cursor_after t c - NODE_SPACING) / 2])
                       @ midpoints code_mid ts (cursor_after t c), m')"
      "same_shape m1 m'"
      "\<forall>k. k \<notin> set (concat (map tree_ids ts)) \<longrightarrow> map_of m' k = map_of m1 k"
      "placed_all code_mid m' ts (cursor_after t c) (Suc d)"
    by blast
  have run: "forEach_children stack (map root_id (t # ts)) m c d acc
      = Some (cursor_after_all (t # ts) c, acc @ midpoints code_mid (t # ts) c, m')"
    using m1(1) m'(1) by (simp add: code_mid_def)
  have "\<forall>k \<in> set (tree_ids t). map_of m' k = map_of m1 k"
    using m'(3) disj by auto
  then have "placed code_mid m' t c (Suc d)"
    using m1(4) placed_cong [of t m' m1 code_mid c "Suc d"] by simp
  with m'(4) have pl: "placed_all code_mid m' (t # ts) c (Suc d)" by simp
  have fr: "\<forall>k. k \<notin> set (concat (map tree_ids (t # ts))) \<longrightarrow> map_of m' k = map_of m k"
    using m1(3) m'(3) by simp
  from run same_shape_trans [OF m1(2) m'(2)] fr pl show ?case by blast
qed

lemma calculateTreeLayout_tree:
  "embeds m t \<Longrightarrow> distinct (tree_ids t) \<Longrightarrow> height t \<le> stack \<Longrightarrow>
     \<exists>m'. calculateTreeLayout stack (root_id t) m c d = Some (cursor_after t c, m') \<and>
          same_shape m m' \<and> (\<forall>k. k \<notin> set (tree_ids t) \<longrightarrow> map_of m' k = map_of m k) \<and>
          placed code_mid m' t c d"
proof (induction t arbitrary: m c d stack)
  case (Tree k ts)
  from Tree.prems(1) obtain n where n: "map_of m k = Some n" "children n = map root_id ts"
    "list_all (embeds m) ts"
    by (auto split: option.splits)
  from Tree.prems(3) obtain stack' where stack: "stack = Suc stack'"
    and hs: "\<forall>t \<in> set ts. height t \<le> stack'"
    by (cases stack) (simp_all add: foldr_max_le)
  from Tree.prems(2) have knot: "k \<notin> set (concat (map tree_ids ts))"
    and dts: "distinct (concat (map tree_ids ts))"
    by simp_all
  show ?case
  proof (cases "ts = []")
    case True
    let ?n' = "n\<lparr>node_x := c, node_y := 100 + of_nat d * LEVEL_HEIGHT, level := d\<rparr>"
    have "calculateTreeLayout stack (root_id (Tree k ts)) m c d
        = Some (cursor_after (Tree k ts) c, AList.update k ?n' m)"
      using n True by (simp add: stack)
    moreover have "same_shape m (AList.update k ?n' m)"
      by (rule same_shape_update [OF n(1)]) simp
    moreover have "placed code_mid (AList.update k ?n' m) (Tree k ts) c d"
      using True by (simp add: AList.update_conv')
    ultimately show ?thesis using True by (auto simp add: AList.update_conv')
  next
    case False
    have "\<exists>m'. forEach_children stack' (map root_id ts) m c d []
             = Some (cursor_after_all ts c, [] @ midpoints code_mid ts c, m') \<and>
           same_shape m m' \<and>
           (\<forall>k. k \<notin> set (concat (map tree_ids ts)) \<longrightarrow> map_of m' k = map_of m k) \<and>
           placed_all code_mid m' ts c (Suc d)"
    proof (rule forEach_children_tree [OF _ n(3) dts])
      fix t m c
      assume "t \<in> set ts" "embeds m t" "distinct (tree_ids t)"
      then show "\<exists>m'. calculateTreeLayout stack' (root_id t) m c (d + 1)
                     = Some (cursor_after t c, m') \<and>
           same_shape m m' \<and> (\<forall>k. k \<notin> set (tree_ids t) \<longrightarrow> map_of m' k = map_of m k) \<and>
           placed code_mid m' t c (Suc d)"
        using Tree.IH [of t m stack' c "d + 1"] hs by simp
    qed
    then obtain m1 where
      m1: "forEach_children stack' (map root_id ts) m c d []
             = Some (cursor_after_all ts c, midpoints code_mid ts c, m1)"
        "same_shape m m1"
        "\<forall>k. k \<notin> set (concat (map tree_ids ts)) \<longrightarrow> map_of m1 k = map_of m k"
        "placed_all code_mid m1 ts c (Suc d)"
      by auto
    let ?n' = "n\<lparr>node_x := sum_list (midpoints code_mid ts c) / of_nat (length ts),
                  node_y := 100 + of_nat d * LEVEL_HEIGHT, level := d\<rparr>"
    have run: "calculateTreeLayout stack (root_id (Tree k ts)) m c d
        = Some (cursor_after (Tree k ts) c, AList.update k ?n' m1)"
      using n False m1(1) by (simp add: stack foldl_plus_sum_list)
    have k1: "map_of m1 k = Some n" using m1(3) knot n(1) by simp
    have sh: "same_shape m (AList.update k ?n' m1)"
      by (rule same_shape_trans [OF m1(2)], rule same_shape_update [OF k1]) simp
    have "\<forall>j \<in> set (concat (map tree_ids ts)). map_of (AList.update k ?n' m1) j = map_of m1 j"
      using knot by (auto simp add: AList.update_conv')
    then have "placed_all code_mid (AList.update k ?n' m1) ts c (Suc d)"
      using m1(4) placed_all_cong [of ts "AList.update k ?n' m1" m1 code_mid c "Suc d"] by simp
    then have pl: "placed code_mid (AList.update k ?n' m1) (Tree k ts) c d"
      using False by (simp add: AList.update_conv')
    have fr: "\<forall>j. j \<notin> set (tree_ids (Tree k ts)) \<longrightarrow>
        map_of (AList.update k ?n' m1) j = map_of m j"
      using m1(3) by (simp add: AList.update_conv')
    from run sh fr pl show ?thesis by blast
  qed
qed

text \<open>
  Where a placed node lies: between the cursor at which its subtree starts and one
  spacing before the cursor at which it ends. Siblings are therefore at least one
  spacing apart, from left to right.
\<close>

lemma cursor_after_ge:
  "c + NODE_SPACING \<le> cursor_after t c"
  and cursor_after_all_ge:
  "c \<le> cursor_after_all ts c \<and> (ts \<noteq> [] \<longrightarrow> c + NODE_SPACING \<le> cursor_after_all ts c)"
proof (induction t c and ts c rule: cursor_after_cursor_after_all.induct)
  case (1 k ts cursor)
  then show ?case by simp
next
  case (2 cursor)
  then show ?case by simp
next
  case (3 t ts cursor)
  have "0 \<le> NODE_SPACING" by (simp add: NODE_SPACING_def)
  with 3 show ?case by (simp; linarith)
qed

lemma midpoints_bounds:
  "x \<in> set (midpoints code_mid ts c) \<Longrightarrow> c \<le> x \<and> x + NODE_SPACING \<le> cursor_after_all ts c"
proof (induction ts arbitrary: c)
  case Nil
  then show ?case by simp
next
  case (Cons t ts)
  have a: "c + NODE_SPACING \<le> cursor_after t c" by (rule cursor_after_ge)
  have b: "cursor_after t c \<le> cursor_after_all ts (cursor_after t c)"
    using cursor_after_all_ge by blast
  have s: "0 \<le> NODE_SPACING" by (simp add: NODE_SPACING_def)
  from Cons.prems consider "x = code_mid c (cursor_after t c)"
    | "x \<in> set (midpoints code_mid ts (cursor_after t c))" by auto
  then show ?case
  proof cases
    case 1
    with a b s show ?thesis by (simp add: code_mid_def)
  next
    case 2
    from Cons.IH [OF 2] a s show ?thesis by simp
  qed
qed

lemma sum_list_between:
  fixes xs :: "rat list"
  assumes "\<forall>x \<in> set xs. lo \<le> x \<and> x \<le> hi"
  shows "of_nat (length xs) * lo \<le> sum_list xs \<and> sum_list xs \<le> of_nat (length xs) * hi"
  using assms by (induction xs) (auto simp add: algebra_simps)

lemma mean_between:
  fixes xs :: "rat list"
  assumes "xs \<noteq> []" and "\<forall>x \<in> set xs. lo \<le> x \<and> x \<le> hi"
  shows "lo \<le> sum_list xs / of_nat (length xs) \<and> sum_list xs / of_nat (length xs) \<le> hi"
proof -
  have pos: "(0::rat) < of_nat (length xs)" using assms(1) by simp
  from sum_list_between [OF assms(2)] pos show ?thesis
    by (simp add: pos_le_divide_eq pos_divide_le_eq mult.commute)
qed

lemma placed_root_span:
  assumes "placed code_mid m t c d"
  shows "\<exists>n. map_of m (root_id t) = Some n \<and> c \<le> node_x n \<and>
             node_x n + NODE_SPACING \<le> cursor_after t c"
proof (cases t)
  case (Tree k ts)
  from assms Tree obtain n where n: "map_of m k = Some n"
    "node_x n = (if ts = [] then c
                 else sum_list (midpoints code_mid ts c) / of_nat (length ts))"
    by (auto split: option.splits)
  show ?thesis
  proof (cases "ts = []")
    case True
    with n Tree show ?thesis by simp
  next
    case False
    have "\<forall>x \<in> set (midpoints code_mid ts c). c \<le> x \<and> x \<le> cursor_after_all ts c - NODE_SPACING"
      using midpoints_bounds [of _ ts c] by (simp add: le_diff_eq)
    from mean_between [OF _ this] False
    have "c \<le> sum_list (midpoints code_mid ts c) / of_nat (length ts) \<and>
          sum_list (midpoints code_mid ts c) / of_nat (length ts)
            \<le> cursor_after_all ts c - NODE_SPACING"
      by simp
    with n Tree False show ?thesis by (simp add: le_diff_eq)
  qed
qed

lemma placed_all_lower:
  "placed_all code_mid m ts c d \<Longrightarrow> t \<in> set ts \<Longrightarrow>
     \<exists>n. map_of m (root_id t) = Some n \<and> c \<le> node_x n"
proof (induction ts arbitrary: c)
  case Nil
  then show ?case by simp
next
  case (Cons s ts)
  from Cons.prems(1) have ps: "placed code_mid m s c d"
    and pts: "placed_all code_mid m ts (cursor_after s c) d" by simp_all
  show ?case
  proof (cases "t = s")
    case True
    with placed_root_span [OF ps] show ?thesis by blast
  next
    case False
    with Cons.prems(2) have "t \<in> set ts" by simp
    from Cons.IH [OF pts this] obtain n where
      n: "map_of m (root_id t) = Some n" "cursor_after s c \<le> node_x n" by blast
    have "c + NODE_SPACING \<le> cursor_after s c" by (rule cursor_after_ge)
    moreover have "0 \<le> NODE_SPACING" by (simp add: NODE_SPACING_def)
    ultimately show ?thesis using n by auto
  qed
qed

lemma placed_all_sorted:
  "placed_all code_mid m ts c d \<Longrightarrow>
     sorted_wrt (\<lambda>s t. \<exists>a b. map_of m (root_id s) = Some a \<and> map_of m (root_id t) = Some b \<and>
                        node_x a + NODE_SPACING \<le> node_x b) ts"
proof (induction ts arbitrary: c)
  case Nil
  then show ?case by simp
next
  case (Cons s ts)
  from Cons.prems have ps: "placed code_mid m s c d"
    and pts: "placed_all code_mid m ts (cursor_after s c) d" by simp_all
  from placed_root_span [OF ps] obtain a where
    a: "map_of m (root_id s) = Some a" "node_x a + NODE_SPACING \<le> cursor_after s c" by blast
  have "\<exists>a b. map_of m (root_id s) = Some a \<and> map_of m (root_id t) = Some b \<and>
              node_x a + NODE_SPACING \<le> node_x b" if "t \<in> set ts" for t
    using placed_all_lower [OF pts that] a by fastforce
  with Cons.IH [OF pts] show ?case by simp
qed

lemma placed_all_member:
  "placed_all mid m ts c d \<Longrightarrow> t \<in> set ts \<Longrightarrow> \<exists>c'. placed mid m t c' d"
  by (induction ts arbitrary: c) auto

lemma placed_subterm:
  "placed mid m t c d \<Longrightarrow> s \<in> set (subterms t) \<Longrightarrow> \<exists>c' d'. placed mid m s c' d'"
proof (induction t arbitrary: c d)
  case (Tree k ts)
  show ?case
  proof (cases "s = Tree k ts")
    case True
    with Tree.prems(1) show ?thesis by blast
  next
    case False
    with Tree.prems(2) obtain t where t: "t \<in> set ts" "s \<in> set (subterms t)" by auto
    from Tree.prems(1) have "placed_all mid m ts c (Suc d)" by (auto split: option.splits)
    from placed_all_member [OF this t(1)] obtain c' where "placed mid m t c' (Suc d)" ..
    from Tree.IH [OF t(1) this t(2)] show ?thesis .
  qed
qed

lemma embeds_subterm:
  "embeds m t \<Longrightarrow> s \<in> set (subterms t) \<Longrightarrow> embeds m s"
proof (induction t)
  case (Tree k ts)
  show ?case
  proof (cases "s = Tree k ts")
    case True
    with Tree.prems(1) show ?thesis by simp
  next
    case False
    with Tree.prems(2) obtain t where t: "t \<in> set ts" "s \<in> set (subterms t)" by auto
    from Tree.prems(1) t(1) have "embeds m t" by (auto simp add: list_all_iff split: option.splits)
    from Tree.IH [OF t(1) this t(2)] show ?thesis .
  qed
qed

lemma tree_ids_subterms: "tree_ids t = map root_id (subterms t)"
  by (induction t) (simp add: map_concat cong: map_cong)

subsection \<open>Connector paths\<close>

text \<open>
  Claim C3. The connector of a positioned parent and child starts at
  \<open>(parent.x, parent.y + 80)\<close> and ends at \<open>(child.x, child.y - 80)\<close>. When the
  anchors are less than 10 apart horizontally the path is the straight segment between
  them. Otherwise it is one cubic curve whose control points have the \<open>x\<close> of the
  anchor they belong to, so that the curve leaves the parent and reaches the child
  vertically, and whose \<open>y\<close> lies six tenths of the way from that anchor to the
  vertical midpoint of the two anchors.
\<close>

theorem calculateBranchPath_shape:
  "(let start = (node_x parent, node_y parent + 80);
        fin = (node_x child, node_y child - 80);
        midY = (snd start + snd fin) / 2;
        p = calculateBranchPath parent child
    in path_start p = Some start \<and> path_end p = Some fin \<and>
       (\<bar>fst fin - fst start\<bar> < 10 \<longrightarrow>
          p = [MoveTo (fst start) (snd start), LineTo (fst fin) (snd fin)]) \<and>
       (\<not> \<bar>fst fin - fst start\<bar> < 10 \<longrightarrow>
          (\<exists>c1 c2. p = [MoveTo (fst start) (snd start),
                         CurveTo (fst start) c1 (fst fin) c2 (fst fin) (snd fin)] \<and>
                   c1 = snd start + (midY - snd start) * (6 / 10) \<and>
                   c2 = snd fin - (snd fin - midY) * (6 / 10) \<and>
                   departure start (p ! 1) = (0, c1 - snd start) \<and>
                   arrival (p ! 1) = (0, snd fin - c2))))"
  by (simp add: calculateBranchPath_def Let_def path_start_def path_end_def departure_def
      arrival_def)

theorem calculateBranchPath_shape_witness:
  "calculateBranchPath
     \<lparr>node_id = ''root'', videoUrl = None, node_x = 200, node_y = 100,
      color = ''#9b87f5'', parentId = None, children = [''node-1'', ''node-2''], level = 0\<rparr>
     \<lparr>node_id = ''node-1'', videoUrl = None, node_x = 100, node_y = 320,
      color = ''#D946EF'', parentId = Some ''root'', children = [], level = 1\<rparr>
   = [MoveTo 200 180, CurveTo 200 198 100 222 100 240] \<and>
   calculateBranchPath
     \<lparr>node_id = ''root'', videoUrl = None, node_x = 100, node_y = 100,
      color = ''#9b87f5'', parentId = None, children = [''node-1''], level = 0\<rparr>
     \<lparr>node_id = ''node-1'', videoUrl = None, node_x = 100, node_y = 320,
      color = ''#D946EF'', parentId = Some ''root'', children = [], level = 1\<rparr>
   = [MoveTo 100 180, LineTo 100 240]"
  using calculateBranchPath_shape
      [of "\<lparr>node_id = ''root'', videoUrl = None, node_x = 200, node_y = 100,
      color = ''#9b87f5'', parentId = None, children = [''node-1'', ''node-2''], level = 0\<rparr>"
          "\<lparr>node_id = ''node-1'', videoUrl = None, node_x = 100, node_y = 320,
      color = ''#D946EF'', parentId = Some ''root'', children = [], level = 1\<rparr>"]
    calculateBranchPath_shape
      [of "\<lparr>node_id = ''root'', videoUrl = None, node_x = 100, node_y = 100,
      color = ''#9b87f5'', parentId = None, children = [''node-1''], level = 0\<rparr>"
          "\<lparr>node_id = ''node-1'', videoUrl = None, node_x = 100, node_y = 320,
      color = ''#D946EF'', parentId = Some ''root'', children = [], level = 1\<rparr>"]
  by (simp add: Let_def)

subsection \<open>A parent that does not exist\<close>

text \<open>
  Claim C7, as amended. For every state and every \<open>parent_id\<close> that is not a key of
  the node mapping, \<open>addChildNode\<close> throws a \<open>TypeError\<close> (the read of
  \<^verbatim>\<open>parent.x\<close> on \<^verbatim>\<open>undefined\<close>) and stores no new state.
\<close>

theorem addChildNode_missing_parent:
  "map_of nodes parent_id = None \<Longrightarrow> addChildNode stack now parent_id nodes = Inl TypeError"
  by (simp add: addChildNode_def)

theorem addChildNode_missing_parent_witness:
  "map_of reset ''ghost'' = None \<and> addChildNode 2 1000 ''ghost'' reset = Inl TypeError"
proof -
  have h: "map_of reset ''ghost'' = None" by (simp add: reset_def)
  show ?thesis using h addChildNode_missing_parent [OF h, of 2 1000] by simp
qed

text \<open>
  Claim C7 as stated says that the call completes without an error. On the reset state a
  call addressed to \<^verbatim>\<open>node-7\<close>, which is no key, ends in the \<open>TypeError\<close>.
\<close>

theorem addChildNode_missing_parent_counterexample:
  "map_of reset ''node-7'' = None \<and> addChildNode 3 8 ''node-7'' reset = Inl TypeError"
  by code_simp

subsection \<open>Attaching a video\<close>

text \<open>
  Claim C8. For an existing node, a selection without a file whose type starts with
  \<^verbatim>\<open>video/\<close> leaves the whole node mapping as it was (the node's \<open>videoUrl\<close>,
  every other node, every position and the number of nodes). A selection that passes
  the check stores the object URL in \<open>videoUrl\<close> of the addressed node, keeps the keys
  and every other node, and changes no \<open>x\<close>, \<open>y\<close> or \<open>level\<close>.
\<close>

theorem handleFileSelect_effect:
  "map_of prev nodeId = Some node \<Longrightarrow>
     (\<not> (\<exists>f. first_file event = Some f \<and> prefix ''video/'' (file_type f)) \<longrightarrow>
        handleFileSelect nodeId event objectUrl prev = Nodes prev) \<and>
     ((\<exists>f. first_file event = Some f \<and> prefix ''video/'' (file_type f)) \<longrightarrow>
        (\<exists>next. handleFileSelect nodeId event objectUrl prev = Nodes next \<and>
           map fst next = map fst prev \<and>
           map_of next nodeId = Some (node\<lparr>videoUrl := Some objectUrl\<rparr>) \<and>
           (\<forall>k. k \<noteq> nodeId \<longrightarrow> map_of next k = map_of prev k) \<and>
           (\<forall>k n'. map_of next k = Some n' \<longrightarrow>
              (\<exists>n. map_of prev k = Some n \<and> node_x n' = node_x n \<and> node_y n' = node_y n \<and>
                   level n' = level n))))"
  by (auto simp add: handleFileSelect_def AList.update_conv' AList.update_keys key_present
      split: option.splits)

theorem handleFileSelect_effect_witness:
  "handleFileSelect ''root'' (Some [\<lparr>file_type = ''image/png''\<rparr>]) ''blob:1'' reset = Nodes reset \<and>
   handleFileSelect ''root'' (Some [\<lparr>file_type = ''video/mp4''\<rparr>]) ''blob:1'' reset
     = Nodes [(''root'', rootNode\<lparr>videoUrl := Some ''blob:1''\<rparr>)]"
proof -
  have h: "map_of reset ''root'' = Some rootNode" by (simp add: reset_def)
  have a: "first_file (Some [\<lparr>file_type = ''image/png''\<rparr>]) = Some \<lparr>file_type = ''image/png''\<rparr>"
    and b: "first_file (Some [\<lparr>file_type = ''video/mp4''\<rparr>]) = Some \<lparr>file_type = ''video/mp4''\<rparr>"
    by (simp_all add: first_file_def)
  have c: "\<not> prefix ''video/'' ''image/png''" and d: "prefix ''video/'' ''video/mp4''"
    by simp_all
  from handleFileSelect_effect [OF h, of "Some [\<lparr>file_type = ''image/png''\<rparr>]" "''blob:1''"] a c
  have 1: "handleFileSelect ''root'' (Some [\<lparr>file_type = ''image/png''\<rparr>]) ''blob:1'' reset = Nodes reset"
    by simp
  from handleFileSelect_effect [OF h, of "Some [\<lparr>file_type = ''video/mp4''\<rparr>]" "''blob:1''"] b d
  obtain nxt where n: "handleFileSelect ''root'' (Some [\<lparr>file_type = ''video/mp4''\<rparr>]) ''blob:1'' reset = Nodes nxt"
    "map fst nxt = map fst reset" "map_of nxt ''root'' = Some (rootNode\<lparr>videoUrl := Some ''blob:1''\<rparr>)"
    by auto
  from n(2,3) have "nxt = [(''root'', rootNode\<lparr>videoUrl := Some ''blob:1''\<rparr>)]"
    by (cases nxt) (auto simp add: reset_def split: if_splits)
  with 1 n(1) show ?thesis by simp
qed

subsection \<open>Connectors depend on positions\<close>

text \<open>
  Claim C9, as amended. The path of \<open>calculateBranchPath\<close> is determined by the positions
  of the parent and of the child alone, whatever the other fields of the two nodes. The
  path of \<open>calculatePath\<close>, the connector of the earlier version, is determined by the
  two positions together with the sibling index and the number of siblings.
\<close>

theorem path_determined_by_positions:
  fixes p1 p2 c1 c2 :: VideoNode and q1 q2 d1 d2 :: VideoNode0
  assumes "node_x p1 = node_x p2" "node_y p1 = node_y p2"
    and "node_x c1 = node_x c2" "node_y c1 = node_y c2"
    and "node_x q1 = node_x q2" "node_y q1 = node_y q2"
    and "node_x d1 = node_x d2" "node_y d1 = node_y d2"
  shows "calculateBranchPath p1 c1 = calculateBranchPath p2 c2 \<and>
         calculatePath q1 d1 siblingIndex totalSiblings
           = calculatePath q2 d2 siblingIndex totalSiblings"
  using assms by (simp add: calculateBranchPath_def calculatePath_def)

text \<open>
  Claim C9 as stated fails for \<open>calculatePath\<close>: with the same parent position and the
  same child position, the connector of an only child is a polyline and the connector
  of the same child after a sibling was added contains a quadratic curve.
\<close>

theorem calculatePath_counterexample:
  "calculatePath
     \<lparr>node_id = ''root'', videoUrl = Some ''blob:1'', node_x = 400, node_y = 50,
      color = ''#9b87f5'', parentId = None, children = [''node-1'']\<rparr>
     \<lparr>node_id = ''node-1'', videoUrl = None, node_x = 400, node_y = 230,
      color = ''#D946EF'', parentId = Some ''root'', children = []\<rparr> 0 1
   \<noteq> calculatePath
     \<lparr>node_id = ''root'', videoUrl = Some ''blob:1'', node_x = 400, node_y = 50,
      color = ''#9b87f5'', parentId = None, children = [''node-1'', ''node-2'']\<rparr>
     \<lparr>node_id = ''node-1'', videoUrl = None, node_x = 400, node_y = 230,
      color = ''#D946EF'', parentId = Some ''root'', children = []\<rparr> 0 2"
  by (simp add: calculatePath_def)

theorem path_determined_by_positions_witness:
  "calculateBranchPath
     \<lparr>node_id = ''root'', videoUrl = None, node_x = 200, node_y = 100,
      color = ''#9b87f5'', parentId = None, children = [''node-1'', ''node-2''], level = 0\<rparr>
     \<lparr>node_id = ''node-1'', videoUrl = None, node_x = 100, node_y = 320,
      color = ''#D946EF'', parentId = Some ''root'', children = [], level = 1\<rparr>
   = calculateBranchPath
     \<lparr>node_id = ''node-3'', videoUrl = Some ''blob:2'', node_x = 200, node_y = 100,
      color = ''#0EA5E9'', parentId = Some ''root'', children = [''node-4''], level = 7\<rparr>
     \<lparr>node_id = ''node-4'', videoUrl = None, node_x = 100, node_y = 320,
      color = ''#8B5CF6'', parentId = Some ''node-3'', children = [], level = 8\<rparr> \<and>
   calculatePath
     \<lparr>node_id = ''root'', videoUrl = Some ''blob:1'', node_x = 400, node_y = 50,
      color = ''#9b87f5'', parentId = None, children = [''node-1'']\<rparr>
     \<lparr>node_id = ''node-1'', videoUrl = None, node_x = 400, node_y = 230,
      color = ''#D946EF'', parentId = Some ''root'', children = []\<rparr> 0 2
   = calculatePath
     \<lparr>node_id = ''root'', videoUrl = Some ''blob:1'', node_x = 400, node_y = 50,
      color = ''#9b87f5'', parentId = None, children = [''node-1'', ''node-2'']\<rparr>
     \<lparr>node_id = ''node-1'', videoUrl = Some ''blob:3'', node_x = 400, node_y = 230,
      color = ''#D946EF'', parentId = Some ''root'', children = []\<rparr> 0 2"
  by (rule path_determined_by_positions) simp_all




subsection \<open>The layout pass on a tree\<close>

lemma subterm_distinct:
  "distinct (tree_ids t) \<Longrightarrow> s \<in> set (subterms t) \<Longrightarrow> distinct (tree_ids s)"
proof (induction t)
  case (Tree k ts)
  show ?case
  proof (cases "s = Tree k ts")
    case True
    with Tree.prems(1) show ?thesis by simp
  next
    case False
    with Tree.prems(2) obtain t where t: "t \<in> set ts" "s \<in> set (subterms t)" by auto
    from Tree.prems(1) t(1) have "distinct (tree_ids t)"
      by (auto simp add: distinct_concat_iff)
    from Tree.IH [OF t(1) this t(2)] show ?thesis .
  qed
qed

lemma subterm_height:
  "s \<in> set (subterms t) \<Longrightarrow> height s \<le> height t"
proof (induction t)
  case (Tree k ts)
  show ?case
  proof (cases "s = Tree k ts")
    case True
    then show ?thesis by simp
  next
    case False
    with Tree.prems obtain t where t: "t \<in> set ts" "s \<in> set (subterms t)" by auto
    have "height t \<le> foldr max (map height ts) 0"
      using t(1) foldr_max_le [of height ts "foldr max (map height ts) 0"] by simp
    with Tree.IH [OF t] show ?thesis by simp
  qed
qed

text \<open>
  Claim C1, as amended. For every tree and every layout pass started at the root (with a
  stack of at least the height of the tree) the pass returns, changes positions
  and depths only, and leaves the tree \<open>placed\<close>: the \<open>x\<close> of each internal node is the
  arithmetic mean of its children's midpoints, where the midpoint of a child is
  \<open>(before + after - NODE_SPACING) / 2\<close> for the cursor before and the cursor after that
  child's subtree; the \<open>x\<close> of a leaf is the cursor at which it is reached; and every
  node has \<open>y = 100 + level * LEVEL_HEIGHT\<close> with \<open>level\<close> its distance from the
  root, set in the same pass. The cursor after a subtree is the one the source returns
  for it: on every mapping of this shape the call for a subtree with cursor \<open>c\<close>
  returns \<open>cursor_after s c\<close>.
\<close>

theorem layout_pass_positions:
  assumes "embeds m t" and "distinct (tree_ids t)" and "root_id t = ''root''"
    and "height t \<le> stack"
  shows "\<exists>m'. recalculateLayout stack m = Some m' \<and> same_shape m m' \<and>
           placed code_mid m' t 100 0 \<and>
           (\<forall>s \<in> set (subterms t). \<forall>m'' c l. same_shape m m'' \<longrightarrow>
              map_option fst (calculateTreeLayout stack (root_id s) m'' c l)
                = Some (cursor_after s c))"
proof -
  from calculateTreeLayout_tree [OF assms(1,2,4), of 100 0] assms(3) obtain m' where
    m': "calculateTreeLayout stack ''root'' m 100 0 = Some (cursor_after t 100, m')"
      "same_shape m m'" "placed code_mid m' t 100 0"
    by auto
  have "map_option fst (calculateTreeLayout stack (root_id s) m'' c l) = Some (cursor_after s c)"
    if s: "s \<in> set (subterms t)" and sh: "same_shape m m''" for s m'' c l
  proof -
    have "embeds m'' s"
      by (rule embeds_subterm [OF embeds_same_shape [OF sh assms(1)] s])
    moreover have "distinct (tree_ids s)" by (rule subterm_distinct [OF assms(2) s])
    moreover have "height s \<le> stack" using subterm_height [OF s] assms(4) by simp
    ultimately show ?thesis using calculateTreeLayout_tree [of m'' s stack c l] by auto
  qed
  with m' show ?thesis by (auto simp add: recalculateLayout_def)
qed

theorem layout_pass_positions_witness:
  "embeds four_nodes four_nodes_tree \<and> distinct (tree_ids four_nodes_tree) \<and>
   root_id four_nodes_tree = ''root'' \<and> height four_nodes_tree \<le> 3 \<and>
   (\<exists>m'. recalculateLayout 3 four_nodes = Some m' \<and> same_shape four_nodes m' \<and>
           placed code_mid m' four_nodes_tree 100 0 \<and>
           (\<forall>s \<in> set (subterms four_nodes_tree). \<forall>m'' c l. same_shape four_nodes m'' \<longrightarrow>
              map_option fst (calculateTreeLayout 3 (root_id s) m'' c l)
                = Some (cursor_after s c)))"
proof -
  have a: "embeds four_nodes four_nodes_tree" by code_simp
  have b: "distinct (tree_ids four_nodes_tree)" by code_simp
  have c: "root_id four_nodes_tree = ''root''" by code_simp
  have d: "height four_nodes_tree \<le> 3" by code_simp
  from a b c d layout_pass_positions [OF a b c d] show ?thesis by blast
qed

text \<open>
  Claim C1 as stated takes the midpoint of a child between the cursor before and the
  cursor after its subtree. In the state with a root and one child the pass enters the
  child at cursor 100 and leaves it at 300, so that midpoint is 200; the source gives the
  root the \<open>x\<close> 100, directly above its child.
\<close>

theorem spec_midpoint_counterexample:
  "addChildNode 2 1000 ''root'' reset = Inr one_child \<and>
   embeds one_child one_child_tree \<and> distinct (tree_ids one_child_tree) \<and>
   recalculateLayout 2 one_child = Some one_child \<and>
   map_option node_x (map_of one_child ''root'') = Some 100 \<and>
   midpoints spec_mid [Tree ''node-1000'' []] 100 = [200] \<and>
   \<not> placed spec_mid one_child one_child_tree 100 0"
  by code_simp

text \<open>
  Siblings on a tree. A layout pass on a tree returns, keeps every node and its
  \<^verbatim>\<open>children\<close>, and for every node of the tree and every two of its children \<open>a\<close>
  before \<open>b\<close> in the order of \<^verbatim>\<open>children\<close> both are in the laid out mapping, the \<open>x\<close>
  of \<open>a\<close> is at most the \<open>x\<close> of \<open>b\<close>, and the two are at least one sibling spacing
  apart.
\<close>

lemma siblings_left_to_right:
  assumes "embeds m t" and "distinct (tree_ids t)" and "root_id t = ''root''"
    and "height t \<le> stack"
  shows "\<exists>m'. recalculateLayout stack m = Some m' \<and> same_shape m m' \<and>
           (\<forall>p pn i j. p \<in> set (tree_ids t) \<and> map_of m p = Some pn \<and>
               i < j \<and> j < length (children pn) \<longrightarrow>
               (\<exists>a b. map_of m' (children pn ! i) = Some a \<and>
                      map_of m' (children pn ! j) = Some b \<and>
                      node_x a \<le> node_x b \<and> node_x a + NODE_SPACING \<le> node_x b))"
proof -
  from calculateTreeLayout_tree [OF assms(1,2,4), of 100 0] assms(3) obtain m' where
    m': "calculateTreeLayout stack ''root'' m 100 0 = Some (cursor_after t 100, m')"
      "same_shape m m'" "placed code_mid m' t 100 0"
    by auto
  have "\<exists>a b. map_of m' (children pn ! i) = Some a \<and> map_of m' (children pn ! j) = Some b \<and>
              node_x a \<le> node_x b \<and> node_x a + NODE_SPACING \<le> node_x b"
    if p: "p \<in> set (tree_ids t)" and pn: "map_of m p = Some pn"
      and ij: "i < j" "j < length (children pn)" for p pn i j
  proof -
    from p obtain s where s: "s \<in> set (subterms t)" "root_id s = p"
      by (auto simp add: tree_ids_subterms)
    obtain k ts where kts: "s = Tree k ts" by (cases s)
    with s(2) have k: "k = p" by simp
    from embeds_subterm [OF assms(1) s(1)] pn kts k have ch: "children pn = map root_id ts"
      by simp
    from placed_subterm [OF m'(3) s(1)] obtain c' d' where "placed code_mid m' s c' d'"
      by blast
    with kts have "placed_all code_mid m' ts c' (Suc d')" by (auto split: option.splits)
    from placed_all_sorted [OF this] ij ch
    have "\<exists>a b. map_of m' (root_id (ts ! i)) = Some a \<and> map_of m' (root_id (ts ! j)) = Some b \<and>
                node_x a + NODE_SPACING \<le> node_x b"
      by (simp add: sorted_wrt_iff_nth_less)
    then obtain a b where ab: "map_of m' (root_id (ts ! i)) = Some a"
      "map_of m' (root_id (ts ! j)) = Some b" "node_x a + NODE_SPACING \<le> node_x b"
      by blast
    have "0 \<le> NODE_SPACING" by (simp add: NODE_SPACING_def)
    with ab(3) have "node_x a \<le> node_x b" by simp
    with ab ch ij show ?thesis by simp
  qed
  with m'(1,2) show ?thesis by (simp add: recalculateLayout_def) blast
qed

lemma siblings_left_to_right_example:
  "embeds four_nodes four_nodes_tree \<and> distinct (tree_ids four_nodes_tree) \<and>
   root_id four_nodes_tree = ''root'' \<and> height four_nodes_tree \<le> 3 \<and>
   (\<exists>m'. recalculateLayout 3 four_nodes = Some m' \<and> same_shape four_nodes m' \<and>
           (\<forall>p pn i j. p \<in> set (tree_ids four_nodes_tree) \<and> map_of four_nodes p = Some pn \<and>
               i < j \<and> j < length (children pn) \<longrightarrow>
               (\<exists>a b. map_of m' (children pn ! i) = Some a \<and>
                      map_of m' (children pn ! j) = Some b \<and>
                      node_x a \<le> node_x b \<and> node_x a + NODE_SPACING \<le> node_x b)))"
proof -
  have a: "embeds four_nodes four_nodes_tree" by code_simp
  have b: "distinct (tree_ids four_nodes_tree)" by code_simp
  have c: "root_id four_nodes_tree = ''root''" by code_simp
  have d: "height four_nodes_tree \<le> 3" by code_simp
  from a b c d siblings_left_to_right [OF a b c d] show ?thesis by blast
qed

subsection \<open>Creating a node under an id that is new\<close>

text \<open>
  A layout pass that returns changes positions and depths only, on any mapping.
\<close>

lemma layout_same_shape:
  "calculateTreeLayout stack k m c d = Some (e, m') \<Longrightarrow> same_shape m m'"
  and forEach_same_shape:
  "forEach_children stack ks m c d acc = Some (e, ps, m') \<Longrightarrow> same_shape m m'"
proof (induction stack k m c d and stack ks m c d acc arbitrary: e m' and e ps m'
    rule: calculateTreeLayout_forEach_children.induct)
  case (1 nodeId nodesMap startX lvl)
  then show ?case by simp
next
  case (2 stack nodeId nodesMap startX lvl)
  show ?case
  proof (cases "map_of nodesMap nodeId")
    case None
    with "2.prems" show ?thesis by (simp add: same_shape_refl)
  next
    case (Some node)
    show ?thesis
    proof (cases "children node = []")
      case True
      with "2.prems" Some show ?thesis
        by (auto intro!: same_shape_update)
    next
      case False
      with "2.prems" Some obtain currentX childPositions m1 where
        run: "forEach_children stack (children node) nodesMap startX lvl []
                = Some (currentX, childPositions, m1)"
        and m': "m' = AList.update nodeId
                   (node\<lparr>node_x := (if length childPositions > 0
                                       then foldl (+) 0 childPositions / of_nat (length childPositions)
                                       else startX),
                         node_y := 100 + of_nat lvl * LEVEL_HEIGHT, level := lvl\<rparr>) m1"
        by (auto split: option.splits)
      from False have "length (children node) \<noteq> 0" by simp
      from "2.IH" [OF Some this run] have sh: "same_shape nodesMap m1" .
      from same_shape_lookup [OF sh Some] obtain n1 where
        n1: "map_of m1 nodeId = Some n1" "shape n1 = shape node" by blast
      have "same_shape m1 m'" unfolding m'
        by (rule same_shape_update [OF n1(1)]) (simp add: n1(2))
      with sh show ?thesis by (rule same_shape_trans)
    qed
  qed
next
  case (3 stack nodesMap currentX lvl childPositions)
  then show ?case by (simp add: same_shape_refl)
next
  case (4 stack childId rest nodesMap currentX lvl childPositions)
  from "4.prems" obtain childEndX m1 where
    c: "calculateTreeLayout stack childId nodesMap currentX (lvl + 1) = Some (childEndX, m1)"
    and r: "forEach_children stack rest m1 childEndX lvl
              (childPositions @ [(currentX + childEndX - NODE_SPACING) / 2]) = Some (e, ps, m')"
    by (auto split: option.splits)
  from "4.IH"(1) [OF c] have "same_shape nodesMap m1" .
  moreover from "4.IH"(2) [OF c _ r] have "same_shape m1 m'" by simp
  ultimately show ?case by (rule same_shape_trans)
qed

lemma shape_fields:
  assumes "shape a = shape b"
  shows "node_id a = node_id b" and "videoUrl a = videoUrl b" and "color a = color b"
    and "parentId a = parentId b" and "children a = children b"
proof -
  have "node_id (shape a) = node_id (shape b)" "videoUrl (shape a) = videoUrl (shape b)"
    "color (shape a) = color (shape b)" "parentId (shape a) = parentId (shape b)"
    "children (shape a) = children (shape b)"
    using assms by simp_all
  then show "node_id a = node_id b" and "videoUrl a = videoUrl b" and "color a = color b"
    and "parentId a = parentId b" and "children a = children b"
    by (simp_all add: shape_def)
qed

text \<open>
  When the id formed from the clock reading is not yet a key, \<open>addChildNode\<close> adds
  exactly that key, keeps id, colour, video and parent of every node, appends the new id
  to the children of the addressed parent and keeps the children of every other node.
\<close>

lemma addChildNode_fresh_frame:
  assumes parent: "map_of nodes parent_id = Some parent"
    and fresh: "newId now \<notin> set (map fst nodes)"
    and result: "addChildNode stack now parent_id nodes = Inr updated"
  shows "map fst updated = map fst nodes @ [newId now] \<and>
         (\<forall>k n. map_of nodes k = Some n \<longrightarrow>
            (\<exists>n'. map_of updated k = Some n' \<and> node_id n' = node_id n \<and> color n' = color n \<and>
                  videoUrl n' = videoUrl n \<and> parentId n' = parentId n \<and>
                  children n' = (if k = parent_id then children n @ [newId now]
                                 else children n))) \<and>
         (\<exists>n'. map_of updated (newId now) = Some n' \<and> node_id n' = newId now \<and>
               videoUrl n' = None \<and> color n' = COLORS ! (length nodes mod length COLORS) \<and>
               parentId n' = Some parent_id \<and> children n' = [])"
proof -
  let ?newNode = "\<lparr>node_id = newId now, videoUrl = None, node_x = node_x parent,
      node_y = node_y parent + LEVEL_HEIGHT,
      color = COLORS ! (length nodes mod length COLORS),
      parentId = Some parent_id, children = [], level = level parent + 1\<rparr>"
  let ?u = "AList.update (newId now) ?newNode
              (AList.update parent_id (parent\<lparr>children := children parent @ [newId now]\<rparr>) nodes)"
  from result parent obtain e where lay: "calculateTreeLayout stack ''root'' ?u 100 0 = Some (e, updated)"
    by (auto simp add: addChildNode_def Let_def recalculateLayout_def split: option.splits)
  from layout_same_shape [OF lay] have sh: "same_shape ?u updated" .
  have pk: "parent_id \<in> fst ` set nodes" by (rule key_present [OF parent])
  have keys: "map fst ?u = map fst nodes @ [newId now]"
    using fresh pk by (simp add: AList.update_keys)
  have ne: "parent_id \<noteq> newId now" using fresh pk unfolding set_map by blast
  have old: "\<exists>n'. map_of updated k = Some n' \<and> node_id n' = node_id n \<and> color n' = color n \<and>
                  videoUrl n' = videoUrl n \<and> parentId n' = parentId n \<and>
                  children n' = (if k = parent_id then children n @ [newId now]
                                 else children n)"
    if kn: "map_of nodes k = Some n" for k n
  proof -
    have "k \<noteq> newId now" using fresh key_present [OF kn] unfolding set_map by blast
    then have "map_of ?u k = Some (if k = parent_id then n\<lparr>children := children n @ [newId now]\<rparr> else n)"
      using kn parent by (auto simp add: AList.update_conv')
    from same_shape_lookup [OF sh this] obtain n' where
      n': "map_of updated k = Some n'"
        "shape n' = shape (if k = parent_id then n\<lparr>children := children n @ [newId now]\<rparr> else n)"
      by blast
    from shape_fields [OF n'(2)] n'(1) show ?thesis by (cases "k = parent_id") simp_all
  qed
  have "map_of ?u (newId now) = Some ?newNode" by (simp add: AList.update_conv')
  from same_shape_lookup [OF sh this] obtain n' where
    n': "map_of updated (newId now) = Some n'" "shape n' = shape ?newNode" by blast
  from shape_fields [OF n'(2)] n'(1)
  have new: "\<exists>n'. map_of updated (newId now) = Some n' \<and> node_id n' = newId now \<and>
               videoUrl n' = None \<and> color n' = COLORS ! (length nodes mod length COLORS) \<and>
               parentId n' = Some parent_id \<and> children n' = []"
    by simp
  from sh keys have "map fst updated = map fst nodes @ [newId now]" by (simp add: same_shape_def)
  with old new show ?thesis by blast
qed

text \<open>Different clock readings give different ids, none of which is \<^verbatim>\<open>root\<close>.\<close>

lemma digit_char_inj:
  "a < 10 \<Longrightarrow> b < 10 \<Longrightarrow> digit_char a = digit_char b \<Longrightarrow> a = b"
proof -
  assume "a < 10" "b < 10" "digit_char a = digit_char b"
  moreover have "distinct ''0123456789''" by simp
  ultimately show ?thesis by (simp add: digit_char_def nth_eq_iff_index_eq)
qed

lemma digit_char_no_minus: "d < 10 \<Longrightarrow> digit_char d \<noteq> CHR ''-''"
proof -
  assume "d < 10"
  then have "digit_char d \<in> set ''0123456789''" unfolding digit_char_def
    by (intro nth_mem) simp
  then show ?thesis by auto
qed

lemma decimal_length: "10 \<le> n \<Longrightarrow> 2 \<le> length (decimal n)"
proof -
  assume "10 \<le> n"
  then have "decimal n = decimal (n div 10) @ [digit_char (n mod 10)]" by (subst decimal.simps) simp
  moreover have "decimal (n div 10) \<noteq> []" by (subst decimal.simps) simp
  ultimately show ?thesis by (cases "decimal (n div 10)") simp_all
qed

lemma decimal_inj: "decimal a = decimal b \<Longrightarrow> a = b"
proof (induction a arbitrary: b rule: decimal.induct)
  case (1 n)
  show ?case
  proof (cases "10 \<le> n")
    case True
    show ?thesis
    proof (cases "10 \<le> b")
      case b: True
      have "decimal n = decimal (n div 10) @ [digit_char (n mod 10)]" using True by (subst decimal.simps) simp
      moreover have "decimal b = decimal (b div 10) @ [digit_char (b mod 10)]" using b by (subst decimal.simps) simp
      ultimately have "decimal (n div 10) = decimal (b div 10)"
        and "digit_char (n mod 10) = digit_char (b mod 10)"
        using "1.prems" by simp_all
      from "1.IH" [OF True this(1)] digit_char_inj [OF _ _ this(2)]
      have "n div 10 = b div 10" "n mod 10 = b mod 10" by simp_all
      then show ?thesis by (metis div_mult_mod_eq)
    next
      case False
      then have "decimal b = [digit_char b]" by (subst decimal.simps) simp
      with decimal_length [OF True] "1.prems" show ?thesis by simp
    qed
  next
    case False
    then have n: "decimal n = [digit_char n]" by (subst decimal.simps) simp
    show ?thesis
    proof (cases "10 \<le> b")
      case True
      from "1.prems" [symmetric] n have "decimal b = [digit_char n]" by (rule trans)
      then have "length (decimal b) = 1" by simp
      with decimal_length [OF True] show ?thesis by simp
    next
      case b: False
      then have "decimal b = [digit_char b]" by (subst decimal.simps) simp
      with n "1.prems" False b show ?thesis by (auto intro: digit_char_inj)
    qed
  qed
qed

lemma decimal_no_minus: "hd (decimal n) \<noteq> CHR ''-''"
proof (induction n rule: decimal.induct)
  case (1 n)
  show ?case
  proof (cases "10 \<le> n")
    case True
    have "decimal (n div 10) \<noteq> []" by (subst decimal.simps) simp
    moreover have "decimal n = decimal (n div 10) @ [digit_char (n mod 10)]"
      using True by (subst decimal.simps) simp
    ultimately show ?thesis using "1.IH" [OF True] by simp
  next
    case False
    then have "decimal n = [digit_char n]" by (subst decimal.simps) simp
    with False show ?thesis by (simp add: digit_char_no_minus)
  qed
qed

lemma number_text_inj: "number_text a = number_text b \<Longrightarrow> a = b"
proof -
  assume eq: "number_text a = number_text b"
  have ne: "decimal n \<noteq> CHR ''-'' # s" for n s
    using decimal_no_minus [of n] by (cases "decimal n") auto
  show ?thesis
  proof (cases "0 \<le> a"; cases "0 \<le> b")
    assume "0 \<le> a" "0 \<le> b"
    with eq have "decimal (nat a) = decimal (nat b)" by (simp add: number_text_def)
    from decimal_inj [OF this] \<open>0 \<le> a\<close> \<open>0 \<le> b\<close> show ?thesis by simp
  next
    assume "0 \<le> a" "\<not> 0 \<le> b"
    with eq ne show ?thesis by (simp add: number_text_def)
  next
    assume "\<not> 0 \<le> a" "0 \<le> b"
    with eq have "decimal (nat b) = CHR ''-'' # decimal (nat (- a))"
      by (simp add: number_text_def)
    with ne show ?thesis by blast
  next
    assume "\<not> 0 \<le> a" "\<not> 0 \<le> b"
    with eq have "decimal (nat (- a)) = decimal (nat (- b))" by (simp add: number_text_def)
    from decimal_inj [OF this] \<open>\<not> 0 \<le> a\<close> \<open>\<not> 0 \<le> b\<close> show ?thesis by simp
  qed
qed

lemma newId_inj: "newId a = newId b \<longleftrightarrow> a = b"
  by (auto simp add: newId_def dest: number_text_inj)

lemma newId_not_root: "newId now \<noteq> ''root''"
  by (simp add: newId_def)

text \<open>
  Two children of the root of the reset state, created at different clock readings: both
  at level 1, with the second and third palette colour, at 100 and 300, the root at 200.
\<close>

lemma two_children_distinct_clock:
  assumes "t1 \<noteq> t2"
  shows "run 2 [AddChild t1 ''root'', AddChild t2 ''root''] reset =
    Some [(''root'', \<lparr>node_id = ''root'', videoUrl = None, node_x = 200, node_y = 100,
             color = COLORS ! 0, parentId = None, children = [newId t1, newId t2], level = 0\<rparr>),
          (newId t1, \<lparr>node_id = newId t1, videoUrl = None, node_x = 100, node_y = 320,
             color = COLORS ! 1, parentId = Some ''root'', children = [], level = 1\<rparr>),
          (newId t2, \<lparr>node_id = newId t2, videoUrl = None, node_x = 300, node_y = 320,
             color = COLORS ! 2, parentId = Some ''root'', children = [], level = 1\<rparr>)]"
proof -
  have r1: "''root'' \<noteq> newId t1" and r2: "''root'' \<noteq> newId t2"
    using newId_not_root [of t1] newId_not_root [of t2] by auto
  have d: "newId t1 \<noteq> newId t2" using assms by (simp add: newId_inj)
  have len: "length COLORS = 8" by (simp add: COLORS_def)
  have first: "addChildNode 2 t1 ''root'' reset =
    Inr [(''root'', \<lparr>node_id = ''root'', videoUrl = None, node_x = 100, node_y = 100,
             color = COLORS ! 0, parentId = None, children = [newId t1], level = 0\<rparr>),
          (newId t1, \<lparr>node_id = newId t1, videoUrl = None, node_x = 100, node_y = 320,
             color = COLORS ! 1, parentId = Some ''root'', children = [], level = 1\<rparr>)]"
    using r1 r1 [symmetric]
    by (simp add: addChildNode_def reset_def rootNode_def recalculateLayout_def Let_def len
        numeral_2_eq_2 NODE_SPACING_def LEVEL_HEIGHT_def)
  have second: "addChildNode 2 t2 ''root''
       [(''root'', \<lparr>node_id = ''root'', videoUrl = None, node_x = 100, node_y = 100,
             color = COLORS ! 0, parentId = None, children = [newId t1], level = 0\<rparr>),
          (newId t1, \<lparr>node_id = newId t1, videoUrl = None, node_x = 100, node_y = 320,
             color = COLORS ! 1, parentId = Some ''root'', children = [], level = 1\<rparr>)] =
    Inr [(''root'', \<lparr>node_id = ''root'', videoUrl = None, node_x = 200, node_y = 100,
             color = COLORS ! 0, parentId = None, children = [newId t1, newId t2], level = 0\<rparr>),
          (newId t1, \<lparr>node_id = newId t1, videoUrl = None, node_x = 100, node_y = 320,
             color = COLORS ! 1, parentId = Some ''root'', children = [], level = 1\<rparr>),
          (newId t2, \<lparr>node_id = newId t2, videoUrl = None, node_x = 300, node_y = 320,
             color = COLORS ! 2, parentId = Some ''root'', children = [], level = 1\<rparr>)]"
    using r1 r2 r1 [symmetric] r2 [symmetric] d d [symmetric]
    by (simp add: addChildNode_def recalculateLayout_def Let_def len
        numeral_2_eq_2 NODE_SPACING_def LEVEL_HEIGHT_def)
  show ?thesis by (simp only: run.simps dispatch.simps first second sum.case option.case)
qed

subsection \<open>Additions under new ids keep the tree\<close>

lemma root_id_add_leaf [simp]: "root_id (add_leaf p k t) = root_id t"
  by (cases t) simp

lemma tree_ids_add_leaf:
  "set (tree_ids (add_leaf p k t)) =
     (if p \<in> set (tree_ids t) then insert k (set (tree_ids t)) else set (tree_ids t))"
proof (induction t)
  case (Tree r ts)
  show ?case
  proof (cases "r = p")
    case True
    then show ?thesis by auto
  next
    case False
    have "set (tree_ids (add_leaf p k (Tree r ts)))
        = insert r (\<Union>t \<in> set ts. set (tree_ids (add_leaf p k t)))"
      using False by simp
    also have "\<dots> = insert r (\<Union>t \<in> set ts.
        (if p \<in> set (tree_ids t) then insert k (set (tree_ids t)) else set (tree_ids t)))"
      using Tree.IH by simp
    also have "\<dots> = (if p \<in> set (tree_ids (Tree r ts)) then insert k (set (tree_ids (Tree r ts)))
                      else set (tree_ids (Tree r ts)))"
      using False by (auto split: if_splits)
    finally show ?thesis .
  qed
qed

lemma distinct_add_leaf_all:
  assumes "\<And>t. t \<in> set ts \<Longrightarrow> distinct (tree_ids t) \<Longrightarrow> k \<notin> set (tree_ids t) \<Longrightarrow>
             distinct (tree_ids (add_leaf p k t))"
    and "distinct (concat (map tree_ids ts))" and "k \<notin> set (concat (map tree_ids ts))"
  shows "distinct (concat (map tree_ids (map (add_leaf p k) ts)))"
  using assms
proof (induction ts)
  case Nil
  then show ?case by simp
next
  case (Cons t ts)
  from Cons.prems(2) have dt: "distinct (tree_ids t)"
    and dts: "distinct (concat (map tree_ids ts))"
    and disj: "set (tree_ids t) \<inter> set (concat (map tree_ids ts)) = {}" by simp_all
  from Cons.prems(3) have kt: "k \<notin> set (tree_ids t)"
    and kts: "k \<notin> set (concat (map tree_ids ts))" by simp_all
  have 1: "distinct (tree_ids (add_leaf p k t))" using Cons.prems(1) dt kt by simp
  have 2: "distinct (concat (map tree_ids (map (add_leaf p k) ts)))"
    using Cons.IH Cons.prems(1) dts kts by simp
  have rest: "set (concat (map tree_ids (map (add_leaf p k) ts)))
      = (\<Union>s \<in> set ts. (if p \<in> set (tree_ids s) then insert k (set (tree_ids s))
                           else set (tree_ids s)))"
    by (simp add: tree_ids_add_leaf)
  have 3: "set (tree_ids (add_leaf p k t)) \<inter>
           set (concat (map tree_ids (map (add_leaf p k) ts))) = {}"
    unfolding rest tree_ids_add_leaf using disj kt kts by (auto split: if_splits)
  from 1 2 3 show ?case by simp
qed

lemma distinct_add_leaf:
  "distinct (tree_ids t) \<Longrightarrow> k \<notin> set (tree_ids t) \<Longrightarrow> distinct (tree_ids (add_leaf p k t))"
proof (induction t)
  case (Tree r ts)
  show ?case
  proof (cases "r = p")
    case True
    with Tree.prems show ?thesis by auto
  next
    case False
    have "distinct (concat (map tree_ids (map (add_leaf p k) ts)))"
      by (rule distinct_add_leaf_all) (use Tree in auto)
    moreover have "r \<notin> set (concat (map tree_ids (map (add_leaf p k) ts)))"
      using Tree.prems by (auto simp add: tree_ids_add_leaf split: if_splits)
    ultimately show ?thesis using False by simp
  qed
qed

lemma embeds_cong:
  "(\<forall>j \<in> set (tree_ids t). map_of m1 j = map_of m2 j) \<Longrightarrow> embeds m1 t = embeds m2 t"
proof (induction t)
  case (Tree k ts)
  have "list_all (embeds m1) ts = list_all (embeds m2) ts"
    using Tree by (auto simp add: list_all_iff)
  with Tree.prems show ?case by (simp split: option.splits)
qed

lemma linked_cong:
  "(\<forall>j \<in> set (tree_ids t). map_of m1 j = map_of m2 j) \<Longrightarrow>
     linked m1 t par d = linked m2 t par d"
proof (induction t arbitrary: par d)
  case (Tree k ts)
  have "list_all (\<lambda>t. linked m1 t (Some k) (Suc d)) ts
      = list_all (\<lambda>t. linked m2 t (Some k) (Suc d)) ts"
    using Tree by (auto simp add: list_all_iff)
  with Tree.prems show ?case by (simp split: option.splits)
qed

lemma add_leaf_embeds_linked:
  assumes p: "map_of m p = Some parent" and kp: "k \<noteq> p"
    and new: "children newNode = []" "parentId newNode = Some p"
      "level newNode = level parent + 1"
    and u: "u = AList.update k newNode
                  (AList.update p (parent\<lparr>children := children parent @ [k]\<rparr>) m)"
  shows "embeds m t \<Longrightarrow> linked m t par d \<Longrightarrow> distinct (tree_ids t) \<Longrightarrow>
         k \<notin> set (tree_ids t) \<Longrightarrow>
         embeds u (add_leaf p k t) \<and> linked u (add_leaf p k t) par d"
proof (induction t arbitrary: par d)
  case (Tree r ts)
  have look: "map_of u j = (if j = k then Some newNode
                            else if j = p then Some (parent\<lparr>children := children parent @ [k]\<rparr>)
                            else map_of m j)" for j
    by (simp add: u AList.update_conv')
  from Tree.prems(1) obtain n where n: "map_of m r = Some n" "children n = map root_id ts"
    "list_all (embeds m) ts"
    by (auto split: option.splits)
  from Tree.prems(2) n(1) have l: "parentId n = par" "level n = d"
    "list_all (\<lambda>t. linked m t (Some r) (Suc d)) ts"
    by simp_all
  from Tree.prems(3) have rnot: "r \<notin> set (concat (map tree_ids ts))"
    and dts: "distinct (concat (map tree_ids ts))" by simp_all
  from Tree.prems(4) have rk: "r \<noteq> k" and knot: "k \<notin> set (concat (map tree_ids ts))"
    by auto
  show ?case
  proof (cases "r = p")
    case True
    with n(1) p have np: "n = parent" by simp
    have same: "\<forall>j \<in> set (tree_ids t). map_of u j = map_of m j" if "t \<in> set ts" for t
      using that rnot knot True by (auto simp add: look)
    have e: "list_all (embeds u) ts"
      using n(3) embeds_cong [OF same] by (simp add: list_all_iff)
    have li: "list_all (\<lambda>t. linked u t (Some r) (Suc d)) ts"
      using l(3) linked_cong [OF same] by (simp add: list_all_iff)
    from True kp np n(2) l new e li show ?thesis
      by (simp add: look)
  next
    case False
    have ih: "embeds u (add_leaf p k t) \<and> linked u (add_leaf p k t) (Some r) (Suc d)"
      if t: "t \<in> set ts" for t
    proof (rule Tree.IH [OF t])
      show "embeds m t" using n(3) t by (simp add: list_all_iff)
      show "linked m t (Some r) (Suc d)" using l(3) t by (simp add: list_all_iff)
      show "distinct (tree_ids t)" using dts t by (auto simp add: distinct_concat_iff)
      show "k \<notin> set (tree_ids t)" using knot t by auto
    qed
    from False rk n l ih show ?thesis
      by (simp add: look list_all_iff comp_def)
  qed
qed

lemma height_le_ids: "height t \<le> length (tree_ids t)"
proof (induction t)
  case (Tree k ts)
  have "height t \<le> length (concat (map tree_ids ts))" if t: "t \<in> set ts" for t
  proof -
    have "length (tree_ids t) \<le> sum_list (map length (map tree_ids ts))"
      using t by (intro member_le_sum_list) auto
    with Tree.IH [OF t] show ?thesis by (simp add: length_concat)
  qed
  then have "foldr max (map height ts) 0 \<le> length (concat (map tree_ids ts))"
    by (simp add: foldr_max_le)
  then show ?case by simp
qed

lemma linked_after_layout:
  "same_shape u m' \<Longrightarrow> linked u t par d \<Longrightarrow> placed mid m' t c d \<Longrightarrow> linked m' t par d"
proof (induction t arbitrary: par d c)
  case (Tree k ts)
  from Tree.prems(2) obtain n where n: "map_of u k = Some n" "parentId n = par"
    "list_all (\<lambda>t. linked u t (Some k) (Suc d)) ts"
    by (auto split: option.splits)
  from Tree.prems(3) obtain n' where n': "map_of m' k = Some n'" "level n' = d"
    "placed_all mid m' ts c (Suc d)"
    by (auto split: option.splits)
  from same_shape_lookup [OF Tree.prems(1) n(1)] n'(1) have "shape n' = shape n" by simp
  from shape_fields(4) [OF this] n(2) have par: "parentId n' = par" by simp
  have "linked m' t (Some k) (Suc d)" if t: "t \<in> set ts" for t
  proof -
    from placed_all_member [OF n'(3) t] obtain c' where "placed mid m' t c' (Suc d)" ..
    moreover have "linked u t (Some k) (Suc d)" using n(3) t by (simp add: list_all_iff)
    ultimately show ?thesis using Tree.IH [OF t Tree.prems(1)] by blast
  qed
  with n' par show ?case by (simp add: list_all_iff)
qed

text \<open>
  An addition addressed to an existing node, under an id that is not yet a key and with
  a stack above the number of nodes, returns and leaves a tree state again.
\<close>

lemma addChildNode_tree_state:
  assumes ts: "tree_state m t" and p: "map_of m p = Some parent"
    and fresh: "newId now \<notin> set (map fst m)" and stack: "length m < stack"
  shows "\<exists>m'. addChildNode stack now p m = Inr m' \<and>
              tree_state m' (add_leaf p (newId now) t) \<and>
              map fst m' = map fst m @ [newId now]"
proof -
  let ?k = "newId now"
  let ?newNode = "\<lparr>node_id = ?k, videoUrl = None, node_x = node_x parent,
      node_y = node_y parent + LEVEL_HEIGHT,
      color = COLORS ! (length m mod length COLORS),
      parentId = Some p, children = [], level = level parent + 1\<rparr>"
  let ?u = "AList.update ?k ?newNode
              (AList.update p (parent\<lparr>children := children parent @ [?k]\<rparr>) m)"
  let ?t = "add_leaf p ?k t"
  from ts have root: "root_id t = ''root''" and em: "embeds m t"
    and dt: "distinct (tree_ids t)" and ids: "set (tree_ids t) = set (map fst m)"
    and dk: "distinct (map fst m)" and li: "linked m t None 0"
    by (simp_all add: tree_state_def)
  have pk: "p \<in> set (map fst m)" using key_present [OF p] by simp
  have kp: "?k \<noteq> p" using fresh pk by blast
  have knot: "?k \<notin> set (tree_ids t)" using fresh ids by simp
  have keys: "map fst ?u = map fst m @ [?k]"
    using fresh pk by (simp add: AList.update_keys)
  from add_leaf_embeds_linked [OF p kp _ _ _ refl em li dt knot, of ?newNode]
  have eu: "embeds ?u ?t" and lu: "linked ?u ?t None 0" by simp_all
  have dt': "distinct (tree_ids ?t)" by (rule distinct_add_leaf [OF dt knot])
  have ids': "set (tree_ids ?t) = set (map fst ?u)"
    unfolding keys using pk ids by (simp add: tree_ids_add_leaf)
  have dk': "distinct (map fst ?u)" unfolding keys using dk fresh by simp
  have "length (tree_ids ?t) = length (map fst ?u)"
  proof -
    have "card (set (tree_ids ?t)) = length (tree_ids ?t)" using dt' by (rule distinct_card)
    moreover have "card (set (map fst ?u)) = length (map fst ?u)" using dk' by (rule distinct_card)
    ultimately show ?thesis using ids' by simp
  qed
  moreover have "length (map fst ?u) = Suc (length m)" unfolding keys by simp
  ultimately have h: "height ?t \<le> stack"
    using height_le_ids [of ?t] stack by linarith
  from calculateTreeLayout_tree [OF eu dt' h, of 100 0] root obtain m' where
    m': "calculateTreeLayout stack ''root'' ?u 100 0 = Some (cursor_after ?t 100, m')"
      "same_shape ?u m'" "placed code_mid m' ?t 100 0"
    by auto
  have run: "addChildNode stack now p m = Inr m'"
    using p m'(1) by (simp add: addChildNode_def Let_def recalculateLayout_def)
  have keys': "map fst m' = map fst ?u" using m'(2) by (simp add: same_shape_def)
  have "tree_state m' ?t"
    unfolding tree_state_def
    using root embeds_same_shape [OF m'(2) eu] dt' ids' dk' keys'
      linked_after_layout [OF m'(2) lu m'(3)]
    by simp
  with run keys' keys show ?thesis by simp
qed

lemma tree_state_reset: "tree_state reset (Tree ''root'' [])"
  by (simp add: tree_state_def reset_def rootNode_def)

lemma run_tree_state:
  "fresh_additions (map fst m) es \<Longrightarrow> tree_state m t \<Longrightarrow> length m + length es < stack \<Longrightarrow>
     \<exists>m' t'. run stack es m = Some m' \<and> tree_state m' t'"
proof (induction es arbitrary: m t)
  case Nil
  then show ?case by auto
next
  case (Cons e es)
  from Cons.prems(1) obtain now p where e: "e = AddChild now p"
    and pk: "p \<in> set (map fst m)" and fresh: "newId now \<notin> set (map fst m)"
    and rest: "fresh_additions (map fst m @ [newId now]) es"
    by (cases e) auto
  from pk obtain parent where p: "map_of m p = Some parent"
  proof (cases "map_of m p")
    case None
    then have "p \<notin> fst ` set m" by (simp add: map_of_eq_None_iff)
    with pk show ?thesis by simp
  next
    case (Some a)
    with that show ?thesis by blast
  qed
  from Cons.prems(3) have "length m < stack" by simp
  from addChildNode_tree_state [OF Cons.prems(2) p fresh this] obtain m1 where
    m1: "addChildNode stack now p m = Inr m1" "tree_state m1 (add_leaf p (newId now) t)"
      "map fst m1 = map fst m @ [newId now]"
    by blast
  from arg_cong [OF m1(3), of length] have "length m1 = Suc (length m)" by simp
  with Cons.prems(3) have "length m1 + length es < stack" by simp
  from Cons.IH [OF _ m1(2) this] rest m1(3) obtain m' t' where
    "run stack es m1 = Some m'" "tree_state m' t'" by auto
  with e m1(1) show ?case by auto
qed

lemma linked_node:
  "linked m t par d \<Longrightarrow> distinct (tree_ids t) \<Longrightarrow> k \<in> set (tree_ids t) \<Longrightarrow>
     \<exists>n. map_of m k = Some n \<and>
         (if k = root_id t then parentId n = par \<and> level n = d
          else \<exists>q qn. parentId n = Some q \<and> map_of m q = Some qn \<and> level n = level qn + 1)"
proof (induction t arbitrary: par d)
  case (Tree r ts)
  from Tree.prems(1) obtain rn where rn: "map_of m r = Some rn" "parentId rn = par"
    "level rn = d" "list_all (\<lambda>t. linked m t (Some r) (Suc d)) ts"
    by (auto split: option.splits)
  show ?case
  proof (cases "k = r")
    case True
    with rn show ?thesis by simp
  next
    case False
    with Tree.prems(3) obtain t where t: "t \<in> set ts" "k \<in> set (tree_ids t)" by auto
    have "linked m t (Some r) (Suc d)" using rn(4) t(1) by (simp add: list_all_iff)
    moreover have "distinct (tree_ids t)"
      using Tree.prems(2) t(1) by (auto simp add: distinct_concat_iff)
    ultimately obtain n where n: "map_of m k = Some n"
      "if k = root_id t then parentId n = Some r \<and> level n = Suc d
       else \<exists>q qn. parentId n = Some q \<and> map_of m q = Some qn \<and> level n = level qn + 1"
      using Tree.IH [OF t(1) _ _ t(2)] by blast
    from n(2) rn(1,3) have "\<exists>q qn. parentId n = Some q \<and> map_of m q = Some qn \<and>
        level n = level qn + 1"
      by (cases "k = root_id t") auto
    with n(1) False show ?thesis by simp
  qed
qed

lemma filter_single:
  "distinct xs \<Longrightarrow> a \<in> set xs \<Longrightarrow> (\<forall>x \<in> set xs. P x \<longleftrightarrow> x = a) \<Longrightarrow> filter P xs = [a]"
proof (induction xs)
  case Nil
  then show ?case by simp
next
  case (Cons x xs)
  show ?case
  proof (cases "x = a")
    case True
    with Cons.prems have "\<forall>y \<in> set xs. \<not> P y" by auto
    then have "filter P xs = []" by (simp add: filter_empty_conv)
    with True Cons.prems(3) show ?thesis by simp
  next
    case False
    with Cons show ?thesis by auto
  qed
qed

lemma tree_state_parent_links:
  assumes "tree_state m t"
  shows "parent_links_ok m"
proof -
  from assms have root: "root_id t = ''root''"
    and dt: "distinct (tree_ids t)" and ids: "set (tree_ids t) = set (map fst m)"
    and dk: "distinct (map fst m)" and li: "linked m t None 0"
    by (simp_all add: tree_state_def)
  have node: "map_of m k = Some n \<and>
      (if k = ''root'' then parentId n = None \<and> level n = 0
       else \<exists>q qn. parentId n = Some q \<and> map_of m q = Some qn \<and> level n = level qn + 1)"
    if kn: "(k, n) \<in> set m" for k n
  proof -
    have look: "map_of m k = Some n" using dk kn by simp
    have "k \<in> set (tree_ids t)" using kn ids by force
    from linked_node [OF li dt this] look root show ?thesis by simp
  qed
  have "root_id t \<in> set (tree_ids t)" by (cases t) simp
  then have "''root'' \<in> set (map fst m)" unfolding ids root .
  then obtain rn where rn: "(''root'', rn) \<in> set m" by auto
  have dm: "distinct m" using dk by (simp add: distinct_map)
  have "filter (\<lambda>(k, n). parentId n = None) m = [(''root'', rn)]"
  proof (rule filter_single [OF dm rn], clarify)
    fix k n
    assume kn: "(k, n) \<in> set m"
    show "(parentId n = None) = ((k, n) = (''root'', rn))"
    proof (cases "k = ''root''")
      case True
      with node [OF kn] node [OF rn] show ?thesis by simp
    next
      case False
      with node [OF kn] show ?thesis by auto
    qed
  qed
  then have one: "length (filter (\<lambda>(k, n). parentId n = None) m) = 1" by simp
  have each: "case parentId n of None \<Rightarrow> True
        | Some q \<Rightarrow> (case map_of m q of None \<Rightarrow> False | Some qn \<Rightarrow> level n = level qn + 1)"
    if kn: "(k, n) \<in> set m" for k n
  proof (cases "k = ''root''")
    case True
    with node [OF kn] show ?thesis by simp
  next
    case False
    with node [OF kn] obtain q qn where "parentId n = Some q" "map_of m q = Some qn"
      "level n = level qn + 1" by auto
    then show ?thesis by simp
  qed
  have "\<forall>x \<in> set m. case x of (k, n) \<Rightarrow> (case parentId n of None \<Rightarrow> True
        | Some q \<Rightarrow> (case map_of m q of None \<Rightarrow> False | Some qn \<Rightarrow> level n = level qn + 1))"
  proof
    fix x assume x: "x \<in> set m"
    obtain k n where kn: "x = (k, n)" by (cases x)
    with x each [of k n] show "case x of (k, n) \<Rightarrow> (case parentId n of None \<Rightarrow> True
        | Some q \<Rightarrow> (case map_of m q of None \<Rightarrow> False | Some qn \<Rightarrow> level n = level qn + 1))"
      by simp
  qed
  with one show ?thesis unfolding parent_links_ok_def list_all_iff by (rule conjI)
qed

text \<open>
  Every sequence of such additions after a reset ends in a tree state: one tree rooted
  at \<^verbatim>\<open>root\<close> that holds every key, one node without a parent, and every other
  node one level below its parent.
\<close>

lemma addChild_sequence_tree:
  assumes "fresh_additions [''root''] es" and "Suc (length es) < stack"
  shows "\<exists>m t. run stack es reset = Some m \<and> tree_state m t \<and> parent_links_ok m"
proof -
  have "fresh_additions (map fst reset) es" using assms(1) by (simp add: reset_def)
  moreover have "length reset + length es < stack" using assms(2) by (simp add: reset_def)
  ultimately obtain m t where "run stack es reset = Some m" "tree_state m t"
    using run_tree_state [OF _ tree_state_reset] by blast
  with tree_state_parent_links show ?thesis by blast
qed

subsection \<open>Clock readings that repeat\<close>

text \<open>
  Claim C6. The id of a new node is \<^verbatim>\<open>node-\<close> followed by the clock reading, so a
  second creation at the reading of an earlier one receives the id of that earlier node.
  After the root received a child at reading 1000, the id for reading 1000 is a key of
  the mapping; adding a child at that reading stores the new node under this key and the
  mapping keeps its two keys. The earlier version of \<open>addChildNode\<close> does the same.
\<close>

theorem newId_collision:
  "addChildNode 2 1000 ''root'' reset = Inr one_child \<and>
   newId 1000 \<in> set (map fst one_child) \<and>
   addChildNode 2 1000 ''root'' one_child = Inr same_ms \<and>
   map fst same_ms = map fst one_child \<and>
   (case addChildNode0 1000 ''root'' reset0 of
      Inl e \<Rightarrow> False
    | Inr first \<Rightarrow>
        newId 1000 \<in> set (map fst first) \<and>
        (case addChildNode0 1000 ''root'' first of
           Inl e \<Rightarrow> False
         | Inr second \<Rightarrow> map fst second = map fst first))"
  by code_simp

text \<open>
  Claim C4. The scenario run with both calls at the clock reading 1000: the root lists
  the id \<^verbatim>\<open>node-1000\<close> twice, the one node under that id has the third palette
  colour, and the root is at 200 while its child is at 300.
\<close>

theorem two_children_same_clock:
  "run 2 [AddChild 1000 ''root'', AddChild 1000 ''root''] reset = Some same_ms \<and>
   map_option children (map_of same_ms ''root'') = Some [''node-1000'', ''node-1000''] \<and>
   map_option color (map_of same_ms ''node-1000'') = Some (COLORS ! 2) \<and>
   COLORS ! 1 \<noteq> COLORS ! 2 \<and>
   map_option node_x (map_of same_ms ''root'') = Some 200 \<and>
   map_option node_x (map_of same_ms ''node-1000'') = Some 300"
  by code_simp

text \<open>
  Claim C2. A child of the root created at clock reading 5, then a child of that child
  created at the same reading: the new node replaces its own parent, names itself as
  parent and stays at level 1, so its depth is not its parent's depth plus 1.
\<close>

theorem self_parent_after_collision:
  "addChildNode 2 5 ''root'' reset = Inr first_child_5 \<and>
   parent_links_ok first_child_5 \<and>
   map_of first_child_5 ''node-5'' \<noteq> None \<and>
   addChildNode 2 5 ''node-5'' first_child_5 = Inr self_parent \<and>
   map_option parentId (map_of self_parent ''node-5'') = Some (Some ''node-5'') \<and>
   map_option level (map_of self_parent ''node-5'') = Some 1 \<and>
   \<not> parent_links_ok self_parent"
  by code_simp

text \<open>
  Claim C10. In a state reached by attaching videos and adding children at the readings
  1000, 2000 and 3000, a child added to \<^verbatim>\<open>node-3000\<close> at the reading 1000 replaces the
  node \<^verbatim>\<open>node-1000\<close>, which is not the addressed parent: its colour, video, parent
  and children change, and no key is added.
\<close>

theorem existing_node_overwritten:
  "run 3 [SelectFile ''root'' (Some [\<lparr>file_type = ''video/mp4''\<rparr>]) ''blob:1'',
          AddChild 1000 ''root'',
          SelectFile ''node-1000'' (Some [\<lparr>file_type = ''video/mp4''\<rparr>]) ''blob:2'',
          AddChild 2000 ''node-1000'',
          AddChild 3000 ''root'',
          SelectFile ''node-3000'' (Some [\<lparr>file_type = ''video/webm''\<rparr>]) ''blob:3''] reset
     = Some three_level \<and>
   map_of three_level ''node-3000'' \<noteq> None \<and>
   addChildNode 3 1000 ''node-3000'' three_level = Inr overwritten \<and>
   map_of three_level ''node-1000''
     = Some \<lparr>node_id = ''node-1000'', videoUrl = Some ''blob:2'', node_x = 100,
         node_y = 320, color = ''#D946EF'', parentId = Some ''root'',
         children = [''node-2000''], level = 1\<rparr> \<and>
   map_of overwritten ''node-1000''
     = Some \<lparr>node_id = ''node-1000'', videoUrl = None, node_x = 300, node_y = 540,
         color = ''#8B5CF6'', parentId = Some ''node-3000'', children = [], level = 2\<rparr> \<and>
   map fst overwritten = map fst three_level"
  by code_simp

text \<open>
  Claim C5. The root receives two children at the clock readings 1 and 2. A child of
  \<^verbatim>\<open>node-2\<close> and a child of \<^verbatim>\<open>node-1\<close> are then created at the same reading 7, so
  that both parents list the one node \<^verbatim>\<open>node-7\<close>, and \<^verbatim>\<open>node-1\<close> receives a second
  child at the reading 8. The layout pass places \<^verbatim>\<open>node-7\<close> first as child of
  \<^verbatim>\<open>node-1\<close> and then again as child of \<^verbatim>\<open>node-2\<close>: the two leaves
  \<^verbatim>\<open>node-7\<close> and \<^verbatim>\<open>node-8\<close>, siblings in this order, end at 500 and at 300, one
  leaf slot each and two slots apart, and a further pass returns the same state.
\<close>

theorem sibling_order_after_collision:
  "addChildNode 3 1 ''root'' reset = Inr first_branch \<and>
   addChildNode 3 2 ''root'' first_branch = Inr two_branches \<and>
   addChildNode 3 7 ''node-2'' two_branches = Inr first_leaf \<and>
   addChildNode 3 7 ''node-1'' first_leaf = Inr shared_child \<and>
   addChildNode 3 8 ''node-1'' shared_child = Inr shared_leaf \<and>
   recalculateLayout 3 shared_leaf = Some shared_leaf \<and>
   map_option children (map_of shared_leaf ''node-1'') = Some [''node-7'', ''node-8''] \<and>
   map_option children (map_of shared_leaf ''node-7'') = Some [] \<and>
   map_option children (map_of shared_leaf ''node-8'') = Some [] \<and>
   map_option node_x (map_of shared_leaf ''node-7'') = Some 500 \<and>
   map_option node_x (map_of shared_leaf ''node-8'') = Some 300 \<and>
   \<not> (500 :: rat) \<le> 300"
proof -
  have 1: "addChildNode 3 1 ''root'' reset = Inr first_branch"
    by code_simp
  have 2: "addChildNode 3 2 ''root'' first_branch = Inr two_branches"
    by code_simp
  have 3: "addChildNode 3 7 ''node-2'' two_branches = Inr first_leaf"
    by code_simp
  have 4: "addChildNode 3 7 ''node-1'' first_leaf = Inr shared_child"
    by code_simp
  have 5: "addChildNode 3 8 ''node-1'' shared_child = Inr shared_leaf"
    by code_simp
  have 6: "recalculateLayout 3 shared_leaf = Some shared_leaf"
    by code_simp
  have 7: "map_option children (map_of shared_leaf ''node-1'')
             = Some [''node-7'', ''node-8'']"
    and 8: "map_option children (map_of shared_leaf ''node-7'') = Some []"
    and 9: "map_option children (map_of shared_leaf ''node-8'') = Some []"
    and 10: "map_option node_x (map_of shared_leaf ''node-7'') = Some 500"
    and 11: "map_option node_x (map_of shared_leaf ''node-8'') = Some 300"
    by code_simp+
  have 12: "\<not> (500 :: rat) \<le> 300" by simp
  show ?thesis
    by (intro conjI) (rule 1 2 3 4 5 6 7 8 9 10 11 12)+
qed

end
